theory Spec2Isabelle
  imports Main "HOL-Library.Word"
begin

unbundle bit_operations_syntax

section \<open>Bytes, memory, slices and outcomes\<close>

type_synonym byte = "8 word"
type_synonym bytes = "byte list"

text \<open>
  Go byte slices are windows on arrays, and the arguments of one call may share an
  array: \<open>Seal\<close> writes behind the elements of \<open>dst\<close>, which is where the plaintext
  lives when the caller passes \<open>plaintext[:0]\<close>. So the arrays are kept in one memory,
  a byte at every address, the addresses below \<open>brk\<close> being those of the arrays
  allocated so far. A slice is the address of its first element, its length, and the
  room its array has behind the elements: the capacity is length plus room. Addresses
  and lengths are natural numbers; Go's \<open>int\<close> has 64 bits, which no sum of lengths
  below reaches.
\<close>

record memory =
  cells :: "nat \<Rightarrow> byte"
  brk :: nat

record slice =
  ptr :: nat
  len :: nat
  room :: nat

definition slice_cap :: "slice \<Rightarrow> nat" where
  "slice_cap s = len s + room s"

definition nil_slice :: slice where
  "nil_slice = \<lparr>ptr = 0, len = 0, room = 0\<rparr>"

text \<open>The elements of a slice, and writing bytes from an address on.\<close>

definition load :: "memory \<Rightarrow> slice \<Rightarrow> bytes" where
  "load h s = map (cells h) [ptr s ..< ptr s + len s]"

definition store :: "memory \<Rightarrow> nat \<Rightarrow> bytes \<Rightarrow> memory" where
  "store h a bs =
     h\<lparr>cells := (\<lambda>i. if a \<le> i \<and> i < a + length bs then bs ! (i - a) else cells h i)\<rparr>"

text \<open>
  The slice expression \<open>s[lo:hi]\<close>, for \<open>lo \<le> hi \<le> cap(s)\<close>; where the code can
  miss these bounds, the caller below checks them first.
\<close>

definition reslice :: "slice \<Rightarrow> nat \<Rightarrow> nat \<Rightarrow> slice" where
  "reslice s lo hi = \<lparr>ptr = ptr s + lo, len = hi - lo, room = slice_cap s - hi\<rparr>"

text \<open>
  \<open>make([]byte, n, m)\<close>: a new array of \<open>m\<close> zero bytes at the first free address, and
  the slice of its first \<open>n\<close> elements.
\<close>

definition make_slice :: "memory \<Rightarrow> nat \<Rightarrow> nat \<Rightarrow> memory \<times> slice" where
  "make_slice h n m =
     ((store h (brk h) (replicate m 0))\<lparr>brk := brk h + m\<rparr>,
      \<lparr>ptr = brk h, len = n, room = m - n\<rparr>)"

text \<open>
  The builtin \<open>copy(dst, src)\<close> overwrites the first \<open>min (len dst) (len src)\<close> elements
  of \<open>dst\<close>: on the contents of two buffers, and on slices in memory.
\<close>

definition copy_bytes :: "bytes \<Rightarrow> bytes \<Rightarrow> bytes" where
  "copy_bytes dst src = take (length dst) src @ drop (length src) dst"

definition copy_slice :: "memory \<Rightarrow> slice \<Rightarrow> slice \<Rightarrow> memory" where
  "copy_slice h dst src = store h (ptr dst) (take (len dst) (load h src))"

text \<open>The errors the package and the library functions it calls can return.\<close>

datatype error =
    ErrBadKeyLength         \<comment> \<open>\<open>errors.New("xaes256gcm: bad key length")\<close>\<close>
  | ErrBadNonceLength       \<comment> \<open>\<open>errors.New("xaes256gcm: bad nonce length")\<close>\<close>
  | errOpen                 \<comment> \<open>\<open>"xaes256gcm: message authentication failed"\<close>\<close>
  | aes_KeySizeError nat    \<comment> \<open>\<open>aes.KeySizeError\<close>\<close>
  | cipher_errBlockSize     \<comment> \<open>\<open>"cipher: NewGCM requires 128-bit block cipher"\<close>\<close>
  | cipher_errOpen          \<comment> \<open>\<open>"cipher: message authentication failed"\<close>\<close>

text \<open>The run-time panics: the package's own, and those of the calls it makes.\<close>

datatype panic =
    PanicBadNonceLength     \<comment> \<open>\<open>panic("xaes256gcm: bad nonce length")\<close>\<close>
  | PanicRand               \<comment> \<open>\<open>panic(err)\<close> after \<open>rand.Read\<close> failed\<close>
  | PanicNilDereference     \<comment> \<open>a method call on the nil result of a failed constructor\<close>
  | PanicSliceBounds        \<comment> \<open>slice bounds out of range\<close>
  | PanicAesInput           \<comment> \<open>\<open>"crypto/aes: input not full block"\<close>\<close>
  | PanicAesOutput          \<comment> \<open>\<open>"crypto/aes: output not full block"\<close>\<close>
  | PanicXorDst             \<comment> \<open>\<open>"subtle.XORBytes: dst too short"\<close>\<close>
  | PanicGcmNonce           \<comment> \<open>\<open>"crypto/cipher: incorrect nonce length given to GCM"\<close>\<close>
  | PanicGcmTagSize         \<comment> \<open>\<open>"crypto/cipher: incorrect GCM tag size"\<close>\<close>
  | PanicGcmTooLarge        \<comment> \<open>\<open>"crypto/cipher: message too large for GCM"\<close>\<close>
  | PanicGcmOverlap         \<comment> \<open>\<open>"crypto/cipher: invalid buffer overlap"\<close>, output and input\<close>
  | PanicGcmOverlapData     \<comment> \<open>the same, output and additional data\<close>

datatype 'a res = Panic panic | Ret 'a

fun res_bind :: "'a res \<Rightarrow> ('a \<Rightarrow> 'b res) \<Rightarrow> 'b res" where
  "res_bind (Panic p) f = Panic p"
| "res_bind (Ret v) f = f v"

text \<open>
  What the caller gets from a call that returns a slice: the bytes of that slice in
  the memory the call leaves behind.
\<close>

fun sealed_bytes :: "(memory \<times> slice) res \<Rightarrow> bytes res" where
  "sealed_bytes (Panic p) = Panic p"
| "sealed_bytes (Ret (h, s)) = Ret (load h s)"

fun opened_bytes :: "(memory \<times> (error + slice)) res \<Rightarrow> (error + bytes) res" where
  "opened_bytes (Panic p) = Panic p"
| "opened_bytes (Ret (h, Inl e)) = Ret (Inl e)"
| "opened_bytes (Ret (h, Inr s)) = Ret (Inr (load h s))"

section \<open>The constants of the package\<close>

definition KeySize :: nat where
  "KeySize = 32"

definition NonceSize :: nat where
  "NonceSize = 24"

definition OverheadWithManualNonces :: nat where
  "OverheadWithManualNonces = 16"

definition Overhead :: nat where
  "Overhead = 40"

definition aes_BlockSize :: nat where
  "aes_BlockSize = 16"

section \<open>The cryptography library the package calls\<close>

text \<open>
  AES, GCM and the random generator belong to Go's standard library, not to the
  package. The primitives are parameters: the AES block function (key, then a 16-byte
  block), and GCM sealing and opening over a block function (nonce, text, additional
  data), sealing giving ciphertext followed by tag. What the library checks before it
  computes (key sizes, block size, full blocks, nonce length, message size, overlap of
  the buffers) and where it writes its output is written out below.
\<close>

record crypto =
  aes_encrypt :: "bytes \<Rightarrow> bytes \<Rightarrow> bytes"
  gcm_seal :: "(bytes \<Rightarrow> bytes) \<Rightarrow> bytes \<Rightarrow> bytes \<Rightarrow> bytes \<Rightarrow> bytes"
  gcm_open :: "(bytes \<Rightarrow> bytes) \<Rightarrow> bytes \<Rightarrow> bytes \<Rightarrow> bytes \<Rightarrow> bytes option"

text \<open>\<open>cipher.Block\<close>: a block size and the block function of the keyed cipher.\<close>

record Block =
  BlockSize :: nat
  block_fn :: "bytes \<Rightarrow> bytes"

text \<open>\<open>aes.NewCipher\<close> accepts keys of 16, 24 and 32 bytes only.\<close>

definition aes_Block :: "crypto \<Rightarrow> bytes \<Rightarrow> Block" where
  "aes_Block lib key = \<lparr>BlockSize = aes_BlockSize, block_fn = aes_encrypt lib key\<rparr>"

definition aes_NewCipher :: "crypto \<Rightarrow> bytes \<Rightarrow> error + Block" where
  "aes_NewCipher lib key =
     (if length key = 16 \<or> length key = 24 \<or> length key = 32
      then Inr (aes_Block lib key)
      else Inl (aes_KeySizeError (length key)))"

text \<open>
  \<open>Block.Encrypt(dst, src)\<close> panics unless both slices hold a full block and writes the
  encryption of the first block of \<open>src\<close> over the first block of \<open>dst\<close>; the result is
  the new contents of \<open>dst\<close>.
\<close>

definition Block_Encrypt :: "Block \<Rightarrow> bytes \<Rightarrow> bytes \<Rightarrow> bytes res" where
  "Block_Encrypt b dst src =
     (if length src < BlockSize b then Panic PanicAesInput
      else if length dst < BlockSize b then Panic PanicAesOutput
      else Ret (copy_bytes (take (BlockSize b) dst) (block_fn b (take (BlockSize b) src))
                @ drop (BlockSize b) dst))"

text \<open>
  \<open>subtle.XORBytes(dst, x, y)\<close> writes \<open>x[i] ^ y[i]\<close> for \<open>i < min (len x) (len y)\<close> to
  \<open>dst\<close> and panics when \<open>dst\<close> is shorter than that; the result is the new contents of
  \<open>dst\<close>.
\<close>

definition XORBytes :: "bytes \<Rightarrow> bytes \<Rightarrow> bytes \<Rightarrow> bytes res" where
  "XORBytes dst x y =
     (let n = min (length x) (length y)
      in if length dst < n then Panic PanicXorDst
         else Ret (map2 (XOR) x y @ drop n dst))"

text \<open>\<open>cipher.NewGCM\<close> wants a cipher with 16-byte blocks; nonces are 12 bytes, tags 16.\<close>

record gcm =
  cipher :: Block
  nonceSize :: nat
  tagSize :: nat

definition cipher_NewGCM :: "Block \<Rightarrow> error + gcm" where
  "cipher_NewGCM blk =
     (if BlockSize blk \<noteq> 16 then Inl cipher_errBlockSize
      else Inr \<lparr>cipher = blk, nonceSize = 12, tagSize = 16\<rparr>)"

text \<open>
  The overlap tests of \<open>crypto/internal/alias\<close>, on the elements of two slices:
  \<open>AnyOverlap\<close> holds when they share a byte, \<open>InexactOverlap\<close> when they do so without
  starting at the same address.
\<close>

definition AnyOverlap :: "slice \<Rightarrow> slice \<Rightarrow> bool" where
  "AnyOverlap x y \<longleftrightarrow>
     0 < len x \<and> 0 < len y \<and>
     ptr x \<le> ptr y + (len y - 1) \<and> ptr y \<le> ptr x + (len x - 1)"

definition InexactOverlap :: "slice \<Rightarrow> slice \<Rightarrow> bool" where
  "InexactOverlap x y \<longleftrightarrow>
     (if len x = 0 \<or> len y = 0 \<or> ptr x = ptr y then False else AnyOverlap x y)"

text \<open>
  \<open>sliceForAppend(in, n)\<close>: \<open>in\<close> extended by \<open>n\<close> elements, in place when its capacity
  suffices and in a new array of exactly that size otherwise, together with the slice
  of the \<open>n\<close> new elements.
\<close>

definition sliceForAppend :: "memory \<Rightarrow> slice \<Rightarrow> nat \<Rightarrow> memory \<times> slice \<times> slice" where
  "sliceForAppend h s n =
     (let total = len s + n
      in if total \<le> slice_cap s
         then (let head = reslice s 0 total in (h, head, reslice head (len s) (len head)))
         else (case make_slice h total total of
                 (h', head) \<Rightarrow> (copy_slice h' head s, head, reslice head (len s) (len head))))"

text \<open>GCM takes at most \<open>(2^32 - 2)\<close> blocks of plaintext.\<close>

definition gcm_max_plaintext :: nat where
  "gcm_max_plaintext = (2 ^ 32 - 2) * 16"

text \<open>
  \<open>AEAD.Seal\<close> appends ciphertext and tag to \<open>dst\<close>. It panics on a nonce of the wrong
  length, on a plaintext over the limit, when the appended bytes overlap the plaintext
  without starting where it starts, and when they overlap the additional data (a test
  that the library's recent releases make). The nonce and the texts are read before
  the output is written, so a plaintext that starts where the output starts is
  encrypted in place.
\<close>

definition gcm_Seal ::
  "crypto \<Rightarrow> gcm \<Rightarrow> memory \<Rightarrow> slice \<Rightarrow> slice \<Rightarrow> slice \<Rightarrow> slice \<Rightarrow> (memory \<times> slice) res" where
  "gcm_Seal lib g h dst nonce plaintext additionalData =
     (if len nonce \<noteq> nonceSize g then Panic PanicGcmNonce
      else if gcm_max_plaintext < len plaintext then Panic PanicGcmTooLarge
      else case sliceForAppend h dst (len plaintext + tagSize g) of
             (h, ret, out) \<Rightarrow>
               if InexactOverlap out plaintext then Panic PanicGcmOverlap
               else if AnyOverlap out additionalData then Panic PanicGcmOverlapData
               else Ret (store h (ptr out)
                           (copy_bytes (load h out)
                              (gcm_seal lib (block_fn (cipher g)) (load h nonce)
                                 (load h plaintext) (load h additionalData))),
                         ret))"

text \<open>
  \<open>AEAD.Open\<close> appends the plaintext to \<open>dst\<close>, or returns \<open>nil\<close> and the library's
  authentication error: for a ciphertext shorter than a tag or over the limit, and,
  after the same overlap tests as in \<open>Seal\<close>, for a tag that does not match, in which
  case the bytes it meant to write are cleared.
\<close>

definition gcm_Open ::
  "crypto \<Rightarrow> gcm \<Rightarrow> memory \<Rightarrow> slice \<Rightarrow> slice \<Rightarrow> slice \<Rightarrow> slice
     \<Rightarrow> (memory \<times> (error + slice)) res" where
  "gcm_Open lib g h dst nonce ciphertext additionalData =
     (if len nonce \<noteq> nonceSize g then Panic PanicGcmNonce
      else if tagSize g < 12 then Panic PanicGcmTagSize
      else if len ciphertext < tagSize g then Ret (h, Inl cipher_errOpen)
      else if gcm_max_plaintext + tagSize g < len ciphertext then Ret (h, Inl cipher_errOpen)
      else case sliceForAppend h dst (len ciphertext - tagSize g) of
             (h, ret, out) \<Rightarrow>
               if InexactOverlap out ciphertext then Panic PanicGcmOverlap
               else if AnyOverlap out additionalData then Panic PanicGcmOverlapData
               else case gcm_open lib (block_fn (cipher g)) (load h nonce)
                           (load h ciphertext) (load h additionalData) of
                      None \<Rightarrow>
                        Ret (store h (ptr out) (replicate (len out) 0), Inl cipher_errOpen)
                    | Some plaintext \<Rightarrow>
                        Ret (store h (ptr out) (copy_bytes (load h out) plaintext), Inr ret))"

text \<open>
  \<open>rand.Read(b)\<close>: the random source either fails or delivers the bytes that fill \<open>b\<close>.
  The source is a function from the number of bytes asked for to what it delivers.
\<close>

type_synonym rand_source = "nat \<Rightarrow> bytes option"

definition rand_Read :: "rand_source \<Rightarrow> memory \<Rightarrow> slice \<Rightarrow> memory option" where
  "rand_Read rnd h b =
     (case rnd (len b) of
        None \<Rightarrow> None
      | Some r \<Rightarrow> Some (store h (ptr b) (copy_bytes (load h b) r)))"

section \<open>The manual-nonce AEAD\<close>

record xaes256gcmManual =
  c :: Block
  k1 :: bytes

text \<open>
  The loop of \<open>newWithManualNonces\<close>, for \<open>i\<close> from \<open>len - 1\<close> down to 0:
  \<open>msb, k1[i] = k1[i]>>7, k1[i]<<1|msb\<close>. The first argument counts the indices still to
  visit.
\<close>

fun shift_loop :: "nat \<Rightarrow> byte \<Rightarrow> bytes \<Rightarrow> byte \<times> bytes" where
  "shift_loop 0 msb k = (msb, k)"
| "shift_loop (Suc i) msb k =
     shift_loop i (drop_bit 7 (k ! i)) (k[i := push_bit 1 (k ! i) OR msb])"

text \<open>The loop, then \<open>k1[len(k1)-1] ^= msb * 0b10000111\<close>.\<close>

definition shift_xor :: "bytes \<Rightarrow> bytes" where
  "shift_xor l =
     (case shift_loop (length l) 0 l of
        (msb, s) \<Rightarrow> s[length s - 1 := s ! (length s - 1) XOR msb * 0x87])"

definition newWithManualNonces :: "crypto \<Rightarrow> bytes \<Rightarrow> (error + xaes256gcmManual) res" where
  "newWithManualNonces lib key =
     (if length key \<noteq> KeySize then Ret (Inl ErrBadKeyLength)
      else case aes_NewCipher lib key of
             Inl e \<Rightarrow> Panic PanicNilDereference
           | Inr blk \<Rightarrow>
               res_bind (Block_Encrypt blk (replicate aes_BlockSize 0) (replicate aes_BlockSize 0))
                 (\<lambda>l. Ret (Inr \<lparr>c = blk, k1 = shift_xor l\<rparr>)))"

definition NewWithManualNonces :: "crypto \<Rightarrow> bytes \<Rightarrow> (error + xaes256gcmManual) res" where
  "NewWithManualNonces lib key = newWithManualNonces lib key"

text \<open>
  \<open>deriveKey\<close>: the buffer \<open>k\<close> holds label, counter and nonce twice; its two halves
  \<open>k[:16]\<close> and \<open>k[16:]\<close> are XORed with \<open>k1\<close> and encrypted in place. With fewer than 16
  bytes in \<open>k\<close> the expression \<open>k[16:]\<close> is out of bounds.
\<close>

definition deriveKey :: "xaes256gcmManual \<Rightarrow> bytes \<Rightarrow> bytes res" where
  "deriveKey x nonce =
     (let k = [0, 1, 0x58, 0] @ nonce @ [0, 2, 0x58, 0] @ nonce
      in if length k < aes_BlockSize then Panic PanicSliceBounds
         else
           res_bind (XORBytes (take aes_BlockSize k) (take aes_BlockSize k) (k1 x)) (\<lambda>k_lo.
           res_bind (XORBytes (drop aes_BlockSize k) (drop aes_BlockSize k) (k1 x)) (\<lambda>k_hi.
           res_bind (Block_Encrypt (c x) k_lo k_lo) (\<lambda>k_lo.
           res_bind (Block_Encrypt (c x) k_hi k_hi) (\<lambda>k_hi.
           Ret (k_lo @ k_hi))))))"

text \<open>
  \<open>Seal\<close> and \<open>Open\<close> read the nonce where it lies; the key that \<open>deriveKey\<close> builds from
  \<open>nonce[:12]\<close> is an array of its own, which nothing else refers to.
\<close>

definition xaes256gcmManual_Seal ::
  "crypto \<Rightarrow> xaes256gcmManual \<Rightarrow> memory \<Rightarrow> slice \<Rightarrow> slice \<Rightarrow> slice \<Rightarrow> slice
     \<Rightarrow> (memory \<times> slice) res" where
  "xaes256gcmManual_Seal lib x h dst nonce plaintext additionalData =
     (if len nonce \<noteq> NonceSize then Panic PanicBadNonceLength
      else
        res_bind (deriveKey x (load h (reslice nonce 0 12))) (\<lambda>k.
        let n = reslice nonce 12 (len nonce) in
        case aes_NewCipher lib k of
          Inl e \<Rightarrow> Panic PanicNilDereference
        | Inr blk \<Rightarrow>
            (case cipher_NewGCM blk of
               Inl e \<Rightarrow> Panic PanicNilDereference
             | Inr a \<Rightarrow> gcm_Seal lib a h dst n plaintext additionalData)))"

definition xaes256gcmManual_Open ::
  "crypto \<Rightarrow> xaes256gcmManual \<Rightarrow> memory \<Rightarrow> slice \<Rightarrow> slice \<Rightarrow> slice \<Rightarrow> slice
     \<Rightarrow> (memory \<times> (error + slice)) res" where
  "xaes256gcmManual_Open lib x h dst nonce ciphertext additionalData =
     (if len nonce \<noteq> NonceSize then Ret (h, Inl ErrBadNonceLength)
      else
        res_bind (deriveKey x (load h (reslice nonce 0 12))) (\<lambda>k.
        let n = reslice nonce 12 (len nonce) in
        case aes_NewCipher lib k of
          Inl e \<Rightarrow> Panic PanicNilDereference
        | Inr blk \<Rightarrow>
            (case cipher_NewGCM blk of
               Inl e \<Rightarrow> Panic PanicNilDereference
             | Inr a \<Rightarrow> gcm_Open lib a h dst n ciphertext additionalData)))"

section \<open>The automatic-nonce AEAD\<close>

record xaes256gcm =
  manual :: xaes256gcmManual

definition New :: "crypto \<Rightarrow> bytes \<Rightarrow> (error + xaes256gcm) res" where
  "New lib key =
     res_bind (newWithManualNonces lib key) (\<lambda>r.
       case r of Inl err \<Rightarrow> Ret (Inl err) | Inr x \<Rightarrow> Ret (Inr \<lparr>manual = x\<rparr>))"

text \<open>
  \<open>Seal\<close> moves \<open>dst\<close> to a new array when its capacity is short of the total, has the
  random source write the nonce behind the elements of \<open>dst\<close>, and seals the plaintext
  as it is in memory by then.
\<close>

definition xaes256gcm_Seal ::
  "crypto \<Rightarrow> rand_source \<Rightarrow> xaes256gcm \<Rightarrow> memory \<Rightarrow> slice \<Rightarrow> slice \<Rightarrow> slice \<Rightarrow> slice
     \<Rightarrow> (memory \<times> slice) res" where
  "xaes256gcm_Seal lib rnd x h dst nonce plaintext additionalData =
     (if len nonce \<noteq> 0 then Panic PanicBadNonceLength
      else
        let total = len dst + len plaintext + Overhead
        in case (if slice_cap dst < total
                 then (case make_slice h (len dst) total of
                         (h', tmp) \<Rightarrow> (copy_slice h' tmp dst, tmp))
                 else (h, dst)) of
             (h, dst) \<Rightarrow>
               if slice_cap dst < len dst + NonceSize then Panic PanicSliceBounds
               else
                 let nonce = reslice dst (len dst) (len dst + NonceSize)
                 in case rand_Read rnd h nonce of
                      None \<Rightarrow> Panic PanicRand
                    | Some h \<Rightarrow>
                        let dst = reslice dst 0 (len dst + NonceSize)
                        in xaes256gcmManual_Seal lib (manual x) h dst nonce plaintext
                             additionalData)"

definition xaes256gcm_Open ::
  "crypto \<Rightarrow> xaes256gcm \<Rightarrow> memory \<Rightarrow> slice \<Rightarrow> slice \<Rightarrow> slice \<Rightarrow> slice
     \<Rightarrow> (memory \<times> (error + slice)) res" where
  "xaes256gcm_Open lib x h dst nonce ciphertext additionalData =
     (if len nonce \<noteq> 0 then Ret (h, Inl ErrBadNonceLength)
      else if len ciphertext < NonceSize then Ret (h, Inl errOpen)
      else xaes256gcmManual_Open lib (manual x) h dst
             (reslice ciphertext 0 NonceSize)
             (reslice ciphertext NonceSize (len ciphertext)) additionalData)"

section \<open>What the claims assume and what they are compared with\<close>

text \<open>
  What the package relies on from the library, where a claim needs it: AES-256 maps a
  block to a block and, for plaintexts within GCM's limit, GCM's output is the text's
  length plus a 16-byte tag and GCM opens what it sealed (same block function, nonce
  and additional data).
\<close>

definition aes_contract :: "crypto \<Rightarrow> bool" where
  "aes_contract lib \<longleftrightarrow>
     (\<forall>key b. length key = 32 \<and> length b = 16 \<longrightarrow> length (aes_encrypt lib key b) = 16)"

definition gcm_seal_contract :: "crypto \<Rightarrow> bool" where
  "gcm_seal_contract lib \<longleftrightarrow>
     (\<forall>f n p a. length n = 12 \<and> length p \<le> gcm_max_plaintext \<longrightarrow>
        length (gcm_seal lib f n p a) = length p + 16)"

definition gcm_open_contract :: "crypto \<Rightarrow> bool" where
  "gcm_open_contract lib \<longleftrightarrow>
     (\<forall>f n p a. length n = 12 \<and> length p \<le> gcm_max_plaintext \<longrightarrow>
        gcm_open lib f n (gcm_seal lib f n p a) a = Some p)"

text \<open>
  What a call may expect of the slices it is given. A slice of the caller lies in an
  array that has been allocated. \<open>appended dst n\<close> are the \<open>n\<close> bytes behind the elements
  of \<open>dst\<close>, which is where a call that appends to \<open>dst\<close> writes when the capacity of
  \<open>dst\<close> suffices. \<open>cipher.AEAD\<close> asks of its callers that these bytes do not overlap
  the additional data, and that they overlap the input text only by starting where it
  starts (\<open>may_append\<close>); \<open>apart\<close> says that they do not overlap a slice at all.
\<close>

definition allocated :: "memory \<Rightarrow> slice \<Rightarrow> bool" where
  "allocated h s \<longleftrightarrow> ptr s + slice_cap s \<le> brk h"

definition appended :: "slice \<Rightarrow> nat \<Rightarrow> slice" where
  "appended dst n = reslice dst (len dst) (len dst + n)"

definition may_append :: "slice \<Rightarrow> nat \<Rightarrow> slice \<Rightarrow> slice \<Rightarrow> bool" where
  "may_append dst n input ad \<longleftrightarrow>
     (len dst + n \<le> slice_cap dst \<longrightarrow>
        \<not> InexactOverlap (appended dst n) input \<and> \<not> AnyOverlap (appended dst n) ad)"

definition apart :: "slice \<Rightarrow> nat \<Rightarrow> slice \<Rightarrow> bool" where
  "apart dst n s \<longleftrightarrow> (len dst + n \<le> slice_cap dst \<longrightarrow> \<not> AnyOverlap (appended dst n) s)"

text \<open>
  The specification's doubling in \<open>GF(2^128)\<close>: the 16 bytes read as one big-endian
  128-bit value, shifted left by one bit, and reduced by \<open>0x87\<close> when the top bit was set.
\<close>

definition be_word :: "bytes \<Rightarrow> 128 word" where
  "be_word bs = foldl (\<lambda>w b. push_bit 8 w OR ucast b) 0 bs"

definition gf128_double :: "128 word \<Rightarrow> 128 word" where
  "gf128_double l = push_bit 1 l XOR (if bit l 127 then 0x87 else 0)"

section \<open>A reference library: AES and GCM\<close>

text \<open>
  One library that meets the contracts: AES after FIPS 197 (any of the three key sizes)
  and GCM after NIST SP 800-38D over an arbitrary block function, with 96-bit nonces and
  128-bit tags. Field elements of GHASH are natural numbers below \<open>2^128\<close>, the
  leftmost bit of a block being the most significant one. Every block encryption goes
  through a 16-byte buffer, as the library's \<open>Encrypt(dst, src)\<close> does.
\<close>

definition sbox :: "byte list list" where
  "sbox =
   [[99, 124, 119, 123, 242, 107, 111, 197, 48, 1, 103, 43, 254, 215, 171, 118],
    [202, 130, 201, 125, 250, 89, 71, 240, 173, 212, 162, 175, 156, 164, 114, 192],
    [183, 253, 147, 38, 54, 63, 247, 204, 52, 165, 229, 241, 113, 216, 49, 21],
    [4, 199, 35, 195, 24, 150, 5, 154, 7, 18, 128, 226, 235, 39, 178, 117],
    [9, 131, 44, 26, 27, 110, 90, 160, 82, 59, 214, 179, 41, 227, 47, 132],
    [83, 209, 0, 237, 32, 252, 177, 91, 106, 203, 190, 57, 74, 76, 88, 207],
    [208, 239, 170, 251, 67, 77, 51, 133, 69, 249, 2, 127, 80, 60, 159, 168],
    [81, 163, 64, 143, 146, 157, 56, 245, 188, 182, 218, 33, 16, 255, 243, 210],
    [205, 12, 19, 236, 95, 151, 68, 23, 196, 167, 126, 61, 100, 93, 25, 115],
    [96, 129, 79, 220, 34, 42, 144, 136, 70, 238, 184, 20, 222, 94, 11, 219],
    [224, 50, 58, 10, 73, 6, 36, 92, 194, 211, 172, 98, 145, 149, 228, 121],
    [231, 200, 55, 109, 141, 213, 78, 169, 108, 86, 244, 234, 101, 122, 174, 8],
    [186, 120, 37, 46, 28, 166, 180, 198, 232, 221, 116, 31, 75, 189, 139, 138],
    [112, 62, 181, 102, 72, 3, 246, 14, 97, 53, 87, 185, 134, 193, 29, 158],
    [225, 248, 152, 17, 105, 217, 142, 148, 155, 30, 135, 233, 206, 85, 40, 223],
    [140, 161, 137, 13, 191, 230, 66, 104, 65, 153, 45, 15, 176, 84, 187, 22]]"

definition sub_byte :: "byte \<Rightarrow> byte" where
  "sub_byte b = sbox ! unat (drop_bit 4 b) ! unat (take_bit 4 b)"

definition xtime :: "byte \<Rightarrow> byte" where
  "xtime b = (if bit b 7 then push_bit 1 (take_bit 7 b) XOR 0x1b else push_bit 1 b)"

fun mix_columns :: "bytes \<Rightarrow> bytes" where
  "mix_columns (a0 # a1 # a2 # a3 # s) =
     (xtime a0 XOR (xtime a1 XOR a1) XOR a2 XOR a3)
     # (a0 XOR xtime a1 XOR (xtime a2 XOR a2) XOR a3)
     # (a0 XOR a1 XOR xtime a2 XOR (xtime a3 XOR a3))
     # ((xtime a0 XOR a0) XOR a1 XOR a2 XOR xtime a3)
     # mix_columns s"
| "mix_columns s = s"

definition shift_rows :: "bytes \<Rightarrow> bytes" where
  "shift_rows s = map (\<lambda>i. s ! i) [0, 5, 10, 15, 4, 9, 14, 3, 8, 13, 2, 7, 12, 1, 6, 11]"

definition add_round_key :: "bytes \<Rightarrow> bytes \<Rightarrow> bytes" where
  "add_round_key s k = map2 (XOR) s k"

definition sched_temp :: "nat \<Rightarrow> nat \<Rightarrow> byte \<Rightarrow> bytes \<Rightarrow> bytes" where
  "sched_temp nk i rcon w =
     (if i mod nk = 0
      then (case map sub_byte (rotate1 w) of [] \<Rightarrow> [] | b # bs \<Rightarrow> (b XOR rcon) # bs)
      else if 6 < nk \<and> i mod nk = 4 then map sub_byte w
      else w)"

fun expand_key :: "nat \<Rightarrow> nat \<Rightarrow> nat \<Rightarrow> byte \<Rightarrow> bytes list \<Rightarrow> bytes list" where
  "expand_key nk i 0 rcon ws = rev ws"
| "expand_key nk i (Suc n) rcon ws =
     expand_key nk (Suc i) n (if i mod nk = 0 then xtime rcon else rcon)
       (map2 (XOR) (ws ! (nk - 1)) (sched_temp nk i rcon (hd ws)) # ws)"

fun chunks4 :: "'a list \<Rightarrow> 'a list list" where
  "chunks4 (w0 # w1 # w2 # w3 # ws) = [w0, w1, w2, w3] # chunks4 ws"
| "chunks4 ws = []"

definition round_keys :: "bytes \<Rightarrow> bytes list" where
  "round_keys key =
     map concat
       (chunks4 (expand_key (length key div 4) (length key div 4)
                   (3 * (length key div 4) + 28) 1 (rev (chunks4 key))))"

fun rounds :: "bytes list \<Rightarrow> bytes \<Rightarrow> bytes" where
  "rounds [] s = s"
| "rounds [k] s = add_round_key (shift_rows (map sub_byte s)) k"
| "rounds (k # ks) s =
     rounds ks (add_round_key (mix_columns (shift_rows (map sub_byte s))) k)"

fun aes_cipher :: "bytes list \<Rightarrow> bytes \<Rightarrow> bytes" where
  "aes_cipher [] b = b"
| "aes_cipher (k # ks) b = rounds ks (add_round_key b k)"

definition ref_aes :: "bytes \<Rightarrow> bytes \<Rightarrow> bytes" where
  "ref_aes key b = aes_cipher (round_keys key) b"

definition enc_block :: "(bytes \<Rightarrow> bytes) \<Rightarrow> bytes \<Rightarrow> bytes" where
  "enc_block f b = copy_bytes (replicate 16 0) (f b)"

definition be_nat :: "bytes \<Rightarrow> nat" where
  "be_nat bs = foldl (\<lambda>n b. 256 * n + unat b) 0 bs"

fun gf_mul_loop :: "nat \<Rightarrow> nat \<Rightarrow> nat \<Rightarrow> nat \<Rightarrow> nat" where
  "gf_mul_loop 0 x v z = z"
| "gf_mul_loop (Suc i) x v z =
     gf_mul_loop i x
       (if odd v then v div 2 XOR 0xe1000000000000000000000000000000 else v div 2)
       (if bit x i then z XOR v else z)"

definition gf_mul :: "nat \<Rightarrow> nat \<Rightarrow> nat" where
  "gf_mul x y = gf_mul_loop 128 x y 0"

fun blocks16 :: "nat \<Rightarrow> bytes \<Rightarrow> bytes list" where
  "blocks16 0 xs = []"
| "blocks16 (Suc m) xs = take 16 xs # blocks16 m (drop 16 xs)"

definition pad16 :: "bytes \<Rightarrow> bytes" where
  "pad16 xs = xs @ replicate ((16 - length xs mod 16) mod 16) 0"

fun be_bytes :: "nat \<Rightarrow> nat \<Rightarrow> bytes" where
  "be_bytes 0 n = []"
| "be_bytes (Suc k) n = be_bytes k (n div 256) @ [word_of_nat (n mod 256)]"

definition ghash_input :: "bytes \<Rightarrow> bytes \<Rightarrow> bytes" where
  "ghash_input a ct =
     pad16 a @ pad16 ct
     @ be_bytes 8 (8 * length a) @ be_bytes 8 (8 * length ct)"

definition ghash :: "nat \<Rightarrow> bytes \<Rightarrow> nat" where
  "ghash h s = foldl (\<lambda>y b. gf_mul (y XOR be_nat b) h) 0 (blocks16 (length s div 16) s)"

fun gctr :: "nat \<Rightarrow> (bytes \<Rightarrow> bytes) \<Rightarrow> bytes \<Rightarrow> nat \<Rightarrow> bytes \<Rightarrow> bytes" where
  "gctr 0 f n ctr xs = []"
| "gctr (Suc m) f n ctr xs =
     map2 (XOR) (take 16 xs) (enc_block f (n @ be_bytes 4 ctr))
     @ gctr m f n (ctr + 1) (drop 16 xs)"

definition gcm_ctr :: "(bytes \<Rightarrow> bytes) \<Rightarrow> bytes \<Rightarrow> bytes \<Rightarrow> bytes" where
  "gcm_ctr f n xs = gctr ((length xs + 15) div 16) f n 2 xs"

definition gcm_tag :: "(bytes \<Rightarrow> bytes) \<Rightarrow> bytes \<Rightarrow> bytes \<Rightarrow> bytes \<Rightarrow> bytes" where
  "gcm_tag f n a ct =
     map2 (XOR)
       (be_bytes 16 (ghash (be_nat (enc_block f (replicate 16 0))) (ghash_input a ct)))
       (enc_block f (n @ [0, 0, 0, 1]))"

definition with_tag :: "(bytes \<Rightarrow> bytes) \<Rightarrow> bytes \<Rightarrow> bytes \<Rightarrow> bytes \<Rightarrow> bytes" where
  "with_tag f n a ct = ct @ gcm_tag f n a ct"

definition ref_gcm_seal :: "(bytes \<Rightarrow> bytes) \<Rightarrow> bytes \<Rightarrow> bytes \<Rightarrow> bytes \<Rightarrow> bytes" where
  "ref_gcm_seal f n p a = with_tag f n a (gcm_ctr f n p)"

definition ref_gcm_open :: "(bytes \<Rightarrow> bytes) \<Rightarrow> bytes \<Rightarrow> bytes \<Rightarrow> bytes \<Rightarrow> bytes option" where
  "ref_gcm_open f n ct a =
     (if length ct < 16 then None
      else if gcm_tag f n a (take (length ct - 16) ct) = drop (length ct - 16) ct
      then Some (gcm_ctr f n (take (length ct - 16) ct))
      else None)"

definition ref_lib :: crypto where
  "ref_lib = \<lparr>aes_encrypt = ref_aes, gcm_seal = ref_gcm_seal, gcm_open = ref_gcm_open\<rparr>"

text \<open>
  The first test vector of the XAES-256-GCM specification: key \<open>0x01\<close> 32 times, nonce
  \<open>"ABCDEFGHIJKLMNOPQRSTUVWX"\<close>, plaintext \<open>"XAES-256-GCM"\<close>, no additional data;
  with its subkey \<open>K1\<close>, derived key and ciphertext.
\<close>

definition kat_key :: bytes where
  "kat_key = replicate 32 0x01"

definition kat_nonce :: bytes where
  "kat_nonce =
     [0x41, 0x42, 0x43, 0x44, 0x45, 0x46, 0x47, 0x48, 0x49, 0x4a, 0x4b, 0x4c,
      0x4d, 0x4e, 0x4f, 0x50, 0x51, 0x52, 0x53, 0x54, 0x55, 0x56, 0x57, 0x58]"

definition kat_plaintext :: bytes where
  "kat_plaintext = [88, 65, 69, 83, 45, 50, 53, 54, 45, 71, 67, 77]"

definition kat_k1 :: bytes where
  "kat_k1 =
     [229, 49, 149, 74, 202, 6, 61, 91, 141, 156, 71, 164, 125, 76, 198, 240]"

definition kat_derived_key :: bytes where
  "kat_derived_key =
     [200, 97, 44, 158, 213, 63, 228, 62, 142, 0, 91, 130, 138, 22, 49, 160, 187, 203,
      106, 178, 244, 101, 20, 236, 79, 67, 159, 207, 208, 250, 150, 155]"

definition kat_ciphertext :: bytes where
  "kat_ciphertext =
     [206, 84, 110, 246, 60, 156, 198, 7, 101, 146, 54, 9, 179, 58, 154, 25, 116, 233,
      110, 82, 218, 242, 252, 247, 7, 94, 34, 113]"

definition kat_instance :: xaes256gcmManual where
  "kat_instance = \<lparr>c = aes_Block ref_lib kat_key, k1 = kat_k1\<rparr>"

definition kat_aead :: xaes256gcm where
  "kat_aead = \<lparr>manual = kat_instance\<rparr>"

text \<open>Two random sources: one that delivers the test vector's nonce, one that fails.\<close>

definition kat_rand :: rand_source where
  "kat_rand n = (if n = 24 then Some kat_nonce else None)"

definition no_rand :: rand_source where
  "no_rand n = None"

text \<open>
  A memory that holds the given bytes from address 0 on and nothing else, and the
  slice of \<open>n\<close> elements at address \<open>a\<close> with no room behind them.
\<close>

definition mem_of :: "bytes \<Rightarrow> memory" where
  "mem_of bs = \<lparr>cells = (\<lambda>i. if i < length bs then bs ! i else 0), brk = length bs\<rparr>"

definition slice_at :: "nat \<Rightarrow> nat \<Rightarrow> slice" where
  "slice_at a n = \<lparr>ptr = a, len = n, room = 0\<rparr>"

text \<open>
  The test vector in memory: nonce at 0, plaintext at 24; and the sealed message of
  automatic mode in memory: nonce, ciphertext and tag from 0 on, and a zero byte.
\<close>

definition kat_mem :: memory where
  "kat_mem = mem_of (kat_nonce @ kat_plaintext)"

definition kat_sealed_mem :: memory where
  "kat_sealed_mem = mem_of (kat_nonce @ kat_ciphertext @ [0])"

text \<open>
  Two destination buffers with the same contents \<open>01 02 03\<close>, one full and one with
  room to spare, in a memory that holds the plaintext at 0 and the buffer at 12.
\<close>

definition dst_mem :: memory where
  "dst_mem = mem_of (kat_plaintext @ [1, 2, 3] @ replicate 100 255)"

definition full_dst :: slice where
  "full_dst = \<lparr>ptr = 12, len = 3, room = 0\<rparr>"

definition roomy_dst :: slice where
  "roomy_dst = \<lparr>ptr = 12, len = 3, room = 100\<rparr>"

text \<open>
  The sealed message with its last tag byte changed from \<open>71\<close> to \<open>70\<close>, in memory
  behind the nonce.
\<close>

definition kat_tampered :: bytes where
  "kat_tampered = take 27 kat_ciphertext @ [0x70]"

definition tampered_mem :: memory where
  "tampered_mem = mem_of (kat_nonce @ kat_tampered)"

text \<open>
  The plaintext of the test vector at the start of an array of 64 bytes, with the two
  slices of the call that is to encrypt in the plaintext's own array: \<open>plaintext[:0]\<close>
  as \<open>dst\<close>, and the plaintext. What automatic-mode \<open>Seal\<close> appends there is the
  ciphertext of \<open>"ABCDEFGHIJKL"\<close>, the first 12 bytes of the nonce.
\<close>

definition inplace_mem :: memory where
  "inplace_mem = mem_of (kat_plaintext @ replicate 52 0)"

definition inplace_dst :: slice where
  "inplace_dst = \<lparr>ptr = 0, len = 0, room = 64\<rparr>"

definition inplace_plaintext :: slice where
  "inplace_plaintext = \<lparr>ptr = 0, len = 12, room = 52\<rparr>"

definition kat_inplace_ciphertext :: bytes where
  "kat_inplace_ciphertext =
     [215, 87, 104, 225, 84, 232, 180, 121, 1, 159, 62, 8, 138, 241, 148, 252, 159, 118,
      31, 111, 227, 193, 231, 91, 46, 147, 199, 91]"

text \<open>
  The nonce at 0 and behind it the plaintext in an array of 52 bytes, with a \<open>dst\<close> that
  starts one byte into the plaintext.
\<close>

definition shifted_mem :: memory where
  "shifted_mem = mem_of (kat_nonce @ kat_plaintext @ replicate 40 0)"

definition shifted_plaintext :: slice where
  "shifted_plaintext = \<lparr>ptr = 24, len = 12, room = 40\<rparr>"

definition shifted_dst :: slice where
  "shifted_dst = \<lparr>ptr = 25, len = 0, room = 51\<rparr>"

text \<open>The nonce at 0 and behind it a plaintext of zeros, one byte over GCM's limit.\<close>

definition huge_mem :: memory where
  "huge_mem = (mem_of kat_nonce)\<lparr>brk := 24 + (gcm_max_plaintext + 1)\<rparr>"

definition huge_plaintext :: slice where
  "huge_plaintext = slice_at 24 (gcm_max_plaintext + 1)"

section \<open>Helper lemmas\<close>

lemma copy_bytes_length [simp]: "length (copy_bytes dst src) = length dst"
  by (simp add: copy_bytes_def)

lemma copy_bytes_full: "length src = length dst \<Longrightarrow> copy_bytes dst src = src"
  by (simp add: copy_bytes_def)

lemma shift_loop_length: "length (snd (shift_loop i m k)) = length k"
  by (induction i arbitrary: m k) simp_all

lemma shift_xor_length [simp]: "length (shift_xor l) = length l"
proof (cases "shift_loop (length l) 0 l")
  case (Pair msb s)
  with shift_loop_length[of "length l" 0 l] show ?thesis
    by (simp add: shift_xor_def)
qed

lemma Block_Encrypt_16:
  "BlockSize b = 16 \<Longrightarrow> length buf = 16 \<Longrightarrow>
   Block_Encrypt b buf buf = Ret (copy_bytes buf (block_fn b buf))"
  by (simp add: Block_Encrypt_def)

lemma aes_Block_simps [simp]:
  "BlockSize (aes_Block lib key) = 16" "block_fn (aes_Block lib key) = aes_encrypt lib key"
  by (simp_all add: aes_Block_def aes_BlockSize_def)

lemma aes_NewCipher_ok:
  "length key = 16 \<or> length key = 24 \<or> length key = 32 \<Longrightarrow>
   aes_NewCipher lib key = Inr (aes_Block lib key)"
  by (simp add: aes_NewCipher_def)

lemma cipher_NewGCM_aes:
  "cipher_NewGCM (aes_Block lib key) = Inr \<lparr>cipher = aes_Block lib key, nonceSize = 12, tagSize = 16\<rparr>"
  by (simp add: cipher_NewGCM_def)

lemma newWithManualNonces_32:
  "length key = 32 \<Longrightarrow>
   newWithManualNonces lib key =
     Ret (Inr \<lparr>c = aes_Block lib key,
               k1 = shift_xor (copy_bytes (replicate 16 0) (aes_encrypt lib key (replicate 16 0)))\<rparr>)"
  unfolding newWithManualNonces_def KeySize_def aes_BlockSize_def
  by (simp only: aes_NewCipher_ok Block_Encrypt_16 aes_Block_simps length_replicate
       sum.case res_bind.simps simp_thms if_False)

lemma newWithManualNonces_bad:
  "length key \<noteq> 32 \<Longrightarrow> newWithManualNonces lib key = Ret (Inl ErrBadKeyLength)"
  by (simp add: newWithManualNonces_def KeySize_def)

lemma newWithManualNonces_Inr:
  assumes "newWithManualNonces lib key = Ret (Inr x)"
  shows "length key = 32"
    and "c x = aes_Block lib key"
    and "k1 x = shift_xor (copy_bytes (replicate 16 0) (aes_encrypt lib key (replicate 16 0)))"
    and "length (k1 x) = 16"
proof -
  show len: "length key = 32"
    using assms by (auto simp: newWithManualNonces_def KeySize_def split: if_splits)
  from assms newWithManualNonces_32[OF len, of lib]
  have x: "x = \<lparr>c = aes_Block lib key,
               k1 = shift_xor (copy_bytes (replicate 16 0) (aes_encrypt lib key (replicate 16 0)))\<rparr>"
    by simp
  show "c x = aes_Block lib key" by (simp add: x)
  show "k1 x = shift_xor (copy_bytes (replicate 16 0) (aes_encrypt lib key (replicate 16 0)))"
    by (simp add: x)
  then show "length (k1 x) = 16" by simp
qed

lemma New_Inr:
  "New lib key = Ret (Inr x) \<Longrightarrow> newWithManualNonces lib key = Ret (Inr (manual x))"
  by (cases "newWithManualNonces lib key")
     (auto simp: New_def split: sum.splits)

lemma XORBytes_16:
  "length a = 16 \<Longrightarrow> length b = 16 \<Longrightarrow> XORBytes a a b = Ret (map2 (XOR) a b)"
  by (simp add: XORBytes_def)

lemma deriveKey_12:
  assumes "newWithManualNonces lib key = Ret (Inr x)" and "length n1 = 12"
  shows "deriveKey x n1 =
           Ret (copy_bytes (map2 (XOR) ([0, 1, 0x58, 0] @ n1) (k1 x))
                  (aes_encrypt lib key (map2 (XOR) ([0, 1, 0x58, 0] @ n1) (k1 x)))
              @ copy_bytes (map2 (XOR) ([0, 2, 0x58, 0] @ n1) (k1 x))
                  (aes_encrypt lib key (map2 (XOR) ([0, 2, 0x58, 0] @ n1) (k1 x))))"
proof -
  let ?k = "[0, 1, 0x58, 0] @ n1 @ [0, 2, 0x58, 0] @ n1"
  have lo: "take 16 ?k = [0, 1, 0x58, 0] @ n1" and hi: "drop 16 ?k = [0, 2, 0x58, 0] @ n1"
    using assms(2) by simp_all
  have len: "length ([0, 1, 0x58, 0] @ n1) = 16" "length ([0, 2, 0x58, 0] @ n1) = 16"
    using assms(2) by simp_all
  have lk: "length (k1 x) = 16" and cx: "c x = aes_Block lib key"
    using newWithManualNonces_Inr[OF assms(1)] by simp_all
  have lx: "length (map2 (XOR) ([0, 1, 0x58, 0] @ n1) (k1 x)) = 16"
     "length (map2 (XOR) ([0, 2, 0x58, 0] @ n1) (k1 x)) = 16"
    using len lk by simp_all
  have k32: "\<not> length ?k < 16" using assms(2) by simp
  show ?thesis
    unfolding deriveKey_def Let_def aes_BlockSize_def lo hi cx
    by (simp only: k32 if_False XORBytes_16[OF len(1) lk] XORBytes_16[OF len(2) lk]
        res_bind.simps Block_Encrypt_16[OF _ lx(1)] Block_Encrypt_16[OF _ lx(2)] aes_Block_simps)
qed

lemma deriveKey_length:
  assumes "newWithManualNonces lib key = Ret (Inr x)" and "length n1 = 12"
  shows "\<exists>k. deriveKey x n1 = Ret k \<and> length k = 32"
  using assms(2) newWithManualNonces_Inr(4)[OF assms(1)]
  by (simp add: deriveKey_12[OF assms])

section \<open>Memory, slices and the library's GCM\<close>

lemma length_load [simp]: "length (load h s) = len s"
  by (simp add: load_def)

lemma brk_store [simp]: "brk (store h a bs) = brk h"
  by (simp add: store_def)

lemma load_brk [simp]: "load (h\<lparr>brk := b\<rparr>) s = load h s"
  by (simp add: load_def)

lemma load_cong: "ptr s = ptr t \<Longrightarrow> len s = len t \<Longrightarrow> load h s = load h t"
  by (simp add: load_def)

lemma load_store_inside:
  "a \<le> ptr s \<Longrightarrow> ptr s + len s \<le> a + length bs \<Longrightarrow>
   load (store h a bs) s = take (len s) (drop (ptr s - a) bs)"
  by (rule nth_equalityI) (auto simp: load_def store_def)

lemma load_store_apart:
  "ptr s + len s \<le> a \<or> a + length bs \<le> ptr s \<Longrightarrow> load (store h a bs) s = load h s"
  by (rule nth_equalityI) (auto simp: load_def store_def)

lemma load_reslice:
  "lo \<le> hi \<Longrightarrow> hi \<le> len s \<Longrightarrow>
   load h (reslice s lo hi) = take (hi - lo) (drop lo (load h s))"
  by (rule nth_equalityI) (auto simp: load_def reslice_def add.assoc)

lemma load_split:
  "n \<le> len s \<Longrightarrow> load h s = load h (reslice s 0 n) @ load h (reslice s n (len s))"
  by (rule nth_equalityI) (auto simp: load_def reslice_def nth_append)

lemma load_mem_of:
  "ptr s + len s \<le> length bs \<Longrightarrow> load (mem_of bs) s = take (len s) (drop (ptr s) bs)"
  by (rule nth_equalityI) (auto simp: load_def mem_of_def)

lemma reslice_simps [simp]:
  "ptr (reslice s lo hi) = ptr s + lo" "len (reslice s lo hi) = hi - lo"
  "room (reslice s lo hi) = slice_cap s - hi"
  by (simp_all add: reslice_def)

lemma sliceForAppend_place:
  assumes "len s + n \<le> slice_cap s"
  shows "sliceForAppend h s n = (h, reslice s 0 (len s + n), appended s n)"
  using assms
  by (simp add: sliceForAppend_def Let_def appended_def reslice_def slice_cap_def)

lemma sliceForAppend_fresh:
  assumes "slice_cap s < len s + n"
  shows "sliceForAppend h s n =
           (store ((store h (brk h) (replicate (len s + n) 0))\<lparr>brk := brk h + (len s + n)\<rparr>)
              (brk h) (load ((store h (brk h) (replicate (len s + n) 0))\<lparr>brk := brk h + (len s + n)\<rparr>) s),
            \<lparr>ptr = brk h, len = len s + n, room = 0\<rparr>,
            \<lparr>ptr = brk h + len s, len = n, room = 0\<rparr>)"
  using assms
  by (simp add: sliceForAppend_def Let_def make_slice_def copy_slice_def reslice_def slice_cap_def)

lemma load_store_other:
  "len t = 0 \<or> length bs = 0 \<or> ptr t + len t \<le> a \<or> a + length bs \<le> ptr t \<Longrightarrow>
   load (store h a bs) t = load h t"
  by (rule nth_equalityI) (auto simp: load_def store_def)

lemma not_AnyOverlap_iff:
  "\<not> AnyOverlap x y \<longleftrightarrow>
     len x = 0 \<or> len y = 0 \<or> ptr x + len x \<le> ptr y \<or> ptr y + len y \<le> ptr x"
  by (auto simp: AnyOverlap_def)

lemma InexactOverlap_imp: "InexactOverlap x y \<Longrightarrow> AnyOverlap x y"
  by (simp add: InexactOverlap_def split: if_splits)

lemma allocated_len: "allocated h s \<Longrightarrow> ptr s + len s \<le> brk h"
  by (simp add: allocated_def slice_cap_def)

lemma sliceForAppend_spec:
  assumes "allocated h s"
  shows "\<exists>h' head out.
           sliceForAppend h s n = (h', head, out) \<and>
           len head = len s + n \<and> ptr out = ptr head + len s \<and> len out = n \<and>
           load h' (reslice head 0 (len s)) = load h s \<and>
           (\<forall>t. ptr t + len t \<le> brk h \<longrightarrow> load h' t = load h t) \<and>
           brk h \<le> brk h' \<and> allocated h' head \<and>
           (len s + n \<le> slice_cap s \<longrightarrow> h' = h \<and> out = appended s n \<and> ptr head = ptr s) \<and>
           (slice_cap s < len s + n \<longrightarrow> brk h \<le> ptr head)"
proof (cases "len s + n \<le> slice_cap s")
  case True
  have "load h (reslice (reslice s 0 (len s + n)) 0 (len s)) = load h s"
    by (rule load_cong) simp_all
  moreover have "allocated h (reslice s 0 (len s + n))"
    using assms True by (simp add: allocated_def slice_cap_def)
  ultimately show ?thesis
    using True by (simp add: sliceForAppend_place appended_def)
next
  case False
  then have fr: "slice_cap s < len s + n" by simp
  let ?z = "(store h (brk h) (replicate (len s + n) 0))\<lparr>brk := brk h + (len s + n)\<rparr>"
  let ?h = "store ?z (brk h) (load ?z s)"
  let ?head = "\<lparr>ptr = brk h, len = len s + n, room = 0\<rparr>"
  have below: "load ?h t = load h t" if "ptr t + len t \<le> brk h" for t
    using that by (simp add: load_store_other)
  have "load ?h (reslice ?head 0 (len s)) = load ?z s"
    by (simp add: load_store_inside)
  also have "\<dots> = load h s"
    using allocated_len[OF assms] by (simp add: load_store_other)
  finally have pre: "load ?h (reslice ?head 0 (len s)) = load h s" .
  have "allocated ?h ?head"
    by (simp add: allocated_def slice_cap_def)
  with pre below fr show ?thesis
    by (simp add: sliceForAppend_fresh)
qed

lemma allocated_store [simp]: "allocated (store h a bs) s = allocated h s"
  by (simp add: allocated_def)

lemma allocated_mono: "allocated h s \<Longrightarrow> brk h \<le> brk h' \<Longrightarrow> allocated h' s"
  by (simp add: allocated_def)

lemma gcm_Seal_spec:
  assumes g: "nonceSize g = 12" "tagSize g = 16"
    and n: "len nonce = 12" and sz: "len pt \<le> gcm_max_plaintext"
    and al: "allocated h dst" "allocated h nonce" "allocated h pt" "allocated h ad"
    and ov: "may_append dst (len pt + 16) pt ad"
    and ct: "length (gcm_seal lib (block_fn (cipher g)) (load h nonce) (load h pt) (load h ad))
               = len pt + 16"
  shows "\<exists>h1 ret.
           gcm_Seal lib g h dst nonce pt ad = Ret (h1, ret) \<and>
           len ret = len dst + (len pt + 16) \<and>
           load h1 ret = load h dst
             @ gcm_seal lib (block_fn (cipher g)) (load h nonce) (load h pt) (load h ad) \<and>
           allocated h1 ret \<and> brk h \<le> brk h1 \<and>
           (\<forall>t. ptr t + len t \<le> brk h \<and> apart dst (len pt + 16) t \<longrightarrow> load h1 t = load h t)"
proof -
  let ?n = "len pt + 16"
  let ?ct = "gcm_seal lib (block_fn (cipher g)) (load h nonce) (load h pt) (load h ad)"
  from sliceForAppend_spec[OF al(1), of ?n]
  obtain h' head out where sfa: "sliceForAppend h dst ?n = (h', head, out)"
    and lh: "len head = len dst + ?n" and po: "ptr out = ptr head + len dst"
    and lo: "len out = ?n"
    and pre: "load h' (reslice head 0 (len dst)) = load h dst"
    and same: "\<And>t. ptr t + len t \<le> brk h \<Longrightarrow> load h' t = load h t"
    and bk: "brk h \<le> brk h'" and ah: "allocated h' head"
    and place: "len dst + ?n \<le> slice_cap dst \<Longrightarrow> h' = h \<and> out = appended dst ?n"
    and fresh: "slice_cap dst < len dst + ?n \<Longrightarrow> brk h \<le> ptr head"
    by blast
  have ld: "load h' nonce = load h nonce" "load h' pt = load h pt" "load h' ad = load h ad"
    using al(2-4) by (simp_all add: same allocated_len)
  have no: "\<not> InexactOverlap out pt \<and> \<not> AnyOverlap out ad"
  proof (cases "len dst + ?n \<le> slice_cap dst")
    case True
    with place ov show ?thesis by (simp add: may_append_def)
  next
    case False
    with fresh have "brk h \<le> ptr out" by (simp add: po)
    with allocated_len[OF al(3)] allocated_len[OF al(4)]
    have "\<not> AnyOverlap out pt" "\<not> AnyOverlap out ad"
      by (simp_all add: not_AnyOverlap_iff)
    then show ?thesis using InexactOverlap_imp by blast
  qed
  have cb: "copy_bytes (load h' out) ?ct = ?ct"
    using ct lo by (simp add: copy_bytes_full)
  let ?h1 = "store h' (ptr out) ?ct"
  have res: "gcm_Seal lib g h dst nonce pt ad = Ret (?h1, head)"
    using g n sz no by (simp add: gcm_Seal_def sfa ld cb)
  have "load ?h1 head = load ?h1 (reslice head 0 (len dst)) @ load ?h1 (reslice head (len dst) (len head))"
    by (rule load_split) (simp add: lh)
  moreover have "load ?h1 (reslice head 0 (len dst)) = load h dst"
    using pre by (simp add: load_store_other po)
  moreover have "load ?h1 (reslice head (len dst) (len head)) = ?ct"
    using ct by (simp add: load_store_inside po lh)
  ultimately have out: "load ?h1 head = load h dst @ ?ct" by simp
  have frame: "load ?h1 t = load h t" if t: "ptr t + len t \<le> brk h" "apart dst ?n t" for t
  proof -
    have "len t = 0 \<or> length ?ct = 0 \<or> ptr t + len t \<le> ptr out \<or> ptr out + length ?ct \<le> ptr t"
    proof (cases "len dst + ?n \<le> slice_cap dst")
      case True
      with place t(2) have "\<not> AnyOverlap out t" by (simp add: apart_def)
      then show ?thesis using lo ct by (auto simp: not_AnyOverlap_iff)
    next
      case False
      with fresh have "brk h \<le> ptr out" by (simp add: po)
      with t(1) show ?thesis by simp
    qed
    then have "load ?h1 t = load h' t" by (rule load_store_other)
    with same[OF t(1)] show ?thesis by simp
  qed
  from res lh out ah bk frame show ?thesis by simp
qed

lemma gcm_Open_spec:
  assumes g: "nonceSize g = 12" "tagSize g = 16"
    and n: "len nonce = 12" and sz: "16 \<le> len ct" "len ct \<le> gcm_max_plaintext + 16"
    and al: "allocated h dst" "allocated h nonce" "allocated h ct" "allocated h ad"
    and ov: "may_append dst (len ct - 16) ct ad"
  shows "(\<forall>p. gcm_open lib (block_fn (cipher g)) (load h nonce) (load h ct) (load h ad) = Some p
              \<and> length p = len ct - 16 \<longrightarrow>
           (\<exists>h1 ret.
              gcm_Open lib g h dst nonce ct ad = Ret (h1, Inr ret) \<and>
              len ret = len dst + length p \<and> load h1 ret = load h dst @ p \<and>
              allocated h1 ret \<and> brk h \<le> brk h1)) \<and>
         (gcm_open lib (block_fn (cipher g)) (load h nonce) (load h ct) (load h ad) = None \<longrightarrow>
           (\<exists>h1. gcm_Open lib g h dst nonce ct ad = Ret (h1, Inl cipher_errOpen)))"
proof -
  let ?n = "len ct - 16"
  from sliceForAppend_spec[OF al(1), of ?n]
  obtain h' head out where sfa: "sliceForAppend h dst ?n = (h', head, out)"
    and lh: "len head = len dst + ?n" and po: "ptr out = ptr head + len dst"
    and lo: "len out = ?n"
    and pre: "load h' (reslice head 0 (len dst)) = load h dst"
    and same: "\<And>t. ptr t + len t \<le> brk h \<Longrightarrow> load h' t = load h t"
    and bk: "brk h \<le> brk h'" and ah: "allocated h' head"
    and place: "len dst + ?n \<le> slice_cap dst \<Longrightarrow> h' = h \<and> out = appended dst ?n"
    and fresh: "slice_cap dst < len dst + ?n \<Longrightarrow> brk h \<le> ptr head"
    by blast
  have ld: "load h' nonce = load h nonce" "load h' ct = load h ct" "load h' ad = load h ad"
    using al(2-4) by (simp_all add: same allocated_len)
  have no: "\<not> InexactOverlap out ct \<and> \<not> AnyOverlap out ad"
  proof (cases "len dst + ?n \<le> slice_cap dst")
    case True
    with place ov show ?thesis by (simp add: may_append_def)
  next
    case False
    with fresh have "brk h \<le> ptr out" by (simp add: po)
    with allocated_len[OF al(3)] allocated_len[OF al(4)]
    have "\<not> AnyOverlap out ct" "\<not> AnyOverlap out ad"
      by (simp_all add: not_AnyOverlap_iff)
    then show ?thesis using InexactOverlap_imp by blast
  qed
  show ?thesis
  proof (intro conjI allI impI)
    fix p
    assume p: "gcm_open lib (block_fn (cipher g)) (load h nonce) (load h ct) (load h ad) = Some p
                 \<and> length p = len ct - 16"
    then have cb: "copy_bytes (load h' out) p = p"
      using lo by (simp add: copy_bytes_full)
    let ?h1 = "store h' (ptr out) p"
    have res: "gcm_Open lib g h dst nonce ct ad = Ret (?h1, Inr head)"
      using g n sz no p by (simp add: gcm_Open_def sfa ld cb)
    have "load ?h1 head
            = load ?h1 (reslice head 0 (len dst)) @ load ?h1 (reslice head (len dst) (len head))"
      by (rule load_split) (simp add: lh)
    moreover have "load ?h1 (reslice head 0 (len dst)) = load h dst"
      using pre by (simp add: load_store_other po)
    moreover have "load ?h1 (reslice head (len dst) (len head)) = p"
      using p by (simp add: load_store_inside po lh)
    ultimately have "load ?h1 head = load h dst @ p" by simp
    with res lh ah bk p
    show "\<exists>h1 ret.
              gcm_Open lib g h dst nonce ct ad = Ret (h1, Inr ret) \<and>
              len ret = len dst + length p \<and> load h1 ret = load h dst @ p \<and>
              allocated h1 ret \<and> brk h \<le> brk h1"
      by simp
  next
    assume "gcm_open lib (block_fn (cipher g)) (load h nonce) (load h ct) (load h ad) = None"
    then show "\<exists>h1. gcm_Open lib g h dst nonce ct ad = Ret (h1, Inl cipher_errOpen)"
      using g n sz no by (simp add: gcm_Open_def sfa ld)
  qed
qed

lemma gcm_Seal_prefix:
  assumes "gcm_Seal lib g h dst nonce pt ad = Ret (h1, ret)" and "allocated h dst"
  shows "len ret = len dst + (len pt + tagSize g) \<and> take (len dst) (load h1 ret) = load h dst"
proof -
  let ?n = "len pt + tagSize g"
  from sliceForAppend_spec[OF assms(2), of ?n]
  obtain h' head out where sfa: "sliceForAppend h dst ?n = (h', head, out)"
    and lh: "len head = len dst + ?n" and po: "ptr out = ptr head + len dst"
    and lo: "len out = ?n"
    and pre: "load h' (reslice head 0 (len dst)) = load h dst"
    by blast
  let ?bs = "copy_bytes (load h' out)
               (gcm_seal lib (block_fn (cipher g)) (load h' nonce) (load h' pt) (load h' ad))"
  from assms(1) have r: "h1 = store h' (ptr out) ?bs" "ret = head"
    by (simp_all add: gcm_Seal_def sfa split: if_splits)
  have "load h1 head = load h1 (reslice head 0 (len dst)) @ load h1 (reslice head (len dst) (len head))"
    by (rule load_split) (simp add: lh)
  moreover have "load h1 (reslice head 0 (len dst)) = load h dst"
    using pre by (simp add: r load_store_other po)
  ultimately have "take (len dst) (load h1 head) = load h dst"
    by simp
  with lh r show ?thesis by simp
qed

lemma load_nonce_halves:
  assumes "len nonce = 24"
  shows "load h (reslice nonce 0 12) = take 12 (load h nonce)"
    and "load h (reslice nonce 12 (len nonce)) = drop 12 (load h nonce)"
    and "len (reslice nonce 12 (len nonce)) = 12"
    and "allocated h nonce \<Longrightarrow> allocated h (reslice nonce 12 (len nonce))"
  using assms by (simp_all add: load_reslice allocated_def slice_cap_def)

lemma manual_Seal_24:
  assumes "newWithManualNonces lib key = Ret (Inr x)" and "len nonce = 24"
    and "deriveKey x (take 12 (load h nonce)) = Ret k"
  shows "xaes256gcmManual_Seal lib x h dst nonce plaintext ad =
           gcm_Seal lib \<lparr>cipher = aes_Block lib k, nonceSize = 12, tagSize = 16\<rparr> h dst
             (reslice nonce 12 (len nonce)) plaintext ad"
proof -
  from deriveKey_length[OF assms(1), of "take 12 (load h nonce)"] assms(2,3)
  have "length k = 32" by auto
  then show ?thesis
    using assms(2,3)
    by (simp add: xaes256gcmManual_Seal_def NonceSize_def load_nonce_halves(1)
        aes_NewCipher_ok cipher_NewGCM_aes)
qed

lemma manual_Open_24:
  assumes "newWithManualNonces lib key = Ret (Inr x)" and "len nonce = 24"
    and "deriveKey x (take 12 (load h nonce)) = Ret k"
  shows "xaes256gcmManual_Open lib x h dst nonce ciphertext ad =
           gcm_Open lib \<lparr>cipher = aes_Block lib k, nonceSize = 12, tagSize = 16\<rparr> h dst
             (reslice nonce 12 (len nonce)) ciphertext ad"
proof -
  from deriveKey_length[OF assms(1), of "take 12 (load h nonce)"] assms(2,3)
  have "length k = 32" by auto
  then show ?thesis
    using assms(2,3)
    by (simp add: xaes256gcmManual_Open_def NonceSize_def load_nonce_halves(1)
        aes_NewCipher_ok cipher_NewGCM_aes)
qed

lemma manual_key:
  assumes "newWithManualNonces lib key = Ret (Inr x)" and "len nonce = 24"
  shows "\<exists>k. deriveKey x (take 12 (load h nonce)) = Ret k \<and> length k = 32"
  using deriveKey_length[OF assms(1), of "take 12 (load h nonce)"] assms(2) by simp

lemma manual_Seal_spec:
  assumes lib: "gcm_seal_contract lib"
    and inst: "newWithManualNonces lib key = Ret (Inr x)"
    and n: "len nonce = 24" and sz: "len pt \<le> gcm_max_plaintext"
    and al: "allocated h dst" "allocated h nonce" "allocated h pt" "allocated h ad"
    and ov: "may_append dst (len pt + 16) pt ad"
    and k: "deriveKey x (take 12 (load h nonce)) = Ret k"
  shows "\<exists>h1 ret.
           xaes256gcmManual_Seal lib x h dst nonce pt ad = Ret (h1, ret) \<and>
           len ret = len dst + (len pt + 16) \<and>
           load h1 ret = load h dst
             @ gcm_seal lib (aes_encrypt lib k) (drop 12 (load h nonce)) (load h pt) (load h ad) \<and>
           length (gcm_seal lib (aes_encrypt lib k) (drop 12 (load h nonce)) (load h pt) (load h ad))
             = len pt + 16 \<and>
           allocated h1 ret \<and> brk h \<le> brk h1 \<and>
           (\<forall>t. ptr t + len t \<le> brk h \<and> apart dst (len pt + 16) t \<longrightarrow> load h1 t = load h t)"
proof -
  let ?g = "\<lparr>cipher = aes_Block lib k, nonceSize = 12, tagSize = 16\<rparr>"
  let ?n = "reslice nonce 12 (len nonce)"
  have ct: "length (gcm_seal lib (aes_encrypt lib k) (drop 12 (load h nonce)) (load h pt) (load h ad))
               = len pt + 16"
    using lib n sz by (simp add: gcm_seal_contract_def)
  have "length (gcm_seal lib (block_fn (cipher ?g)) (load h ?n) (load h pt) (load h ad))
               = len pt + 16"
    using ct by (simp add: load_nonce_halves(2)[OF n])
  from gcm_Seal_spec[of ?g ?n pt h dst ad lib, OF _ _ load_nonce_halves(3)[OF n] sz al(1)
      load_nonce_halves(4)[OF n al(2)] al(3,4) ov this]
  show ?thesis
    using ct by (simp add: manual_Seal_24[OF inst n k] load_nonce_halves(2)[OF n])
qed

lemma manual_Open_spec:
  assumes inst: "newWithManualNonces lib key = Ret (Inr x)"
    and n: "len nonce = 24" and sz: "16 \<le> len ct" "len ct \<le> gcm_max_plaintext + 16"
    and al: "allocated h dst" "allocated h nonce" "allocated h ct" "allocated h ad"
    and ov: "may_append dst (len ct - 16) ct ad"
    and k: "deriveKey x (take 12 (load h nonce)) = Ret k"
  shows "(\<forall>p. gcm_open lib (aes_encrypt lib k) (drop 12 (load h nonce)) (load h ct) (load h ad) = Some p
              \<and> length p = len ct - 16 \<longrightarrow>
           (\<exists>h1 ret.
              xaes256gcmManual_Open lib x h dst nonce ct ad = Ret (h1, Inr ret) \<and>
              len ret = len dst + length p \<and> load h1 ret = load h dst @ p \<and>
              allocated h1 ret \<and> brk h \<le> brk h1)) \<and>
         (gcm_open lib (aes_encrypt lib k) (drop 12 (load h nonce)) (load h ct) (load h ad) = None \<longrightarrow>
           (\<exists>h1. xaes256gcmManual_Open lib x h dst nonce ct ad = Ret (h1, Inl cipher_errOpen)))"
proof -
  let ?g = "\<lparr>cipher = aes_Block lib k, nonceSize = 12, tagSize = 16\<rparr>"
  let ?n = "reslice nonce 12 (len nonce)"
  from gcm_Open_spec[of ?g ?n ct h dst ad lib, OF _ _ load_nonce_halves(3)[OF n] sz al(1)
      load_nonce_halves(4)[OF n al(2)] al(3,4) ov]
  show ?thesis
    by (simp add: manual_Open_24[OF inst n k] load_nonce_halves(2)[OF n])
qed

lemma gcm_Seal_panic:
  "gcm_Seal lib g h dst n pt ad = Panic p \<Longrightarrow>
   (p = PanicGcmNonce \<and> len n \<noteq> nonceSize g) \<or> p = PanicGcmTooLarge \<or> p = PanicGcmOverlap
   \<or> p = PanicGcmOverlapData"
  by (auto simp: gcm_Seal_def split: if_splits prod.splits)

lemma gcm_Open_panic:
  "gcm_Open lib g h dst n ct ad = Panic p \<Longrightarrow>
   (p = PanicGcmNonce \<and> len n \<noteq> nonceSize g) \<or> (p = PanicGcmTagSize \<and> tagSize g < 12)
   \<or> p = PanicGcmOverlap \<or> p = PanicGcmOverlapData"
  by (auto simp: gcm_Open_def split: if_splits prod.splits option.splits)

lemma gcm_Open_error:
  "gcm_Open lib g h dst n ct ad = Ret (h1, Inl e) \<Longrightarrow> e = cipher_errOpen"
  by (auto simp: gcm_Open_def split: if_splits prod.splits option.splits)

lemma manual_Open_error:
  assumes r: "xaes256gcmManual_Open lib x h dst nonce ct ad = Ret (h1, Inl e)"
  shows "e = cipher_errOpen \<or> (e = ErrBadNonceLength \<and> len nonce \<noteq> NonceSize)"
proof (cases "len nonce = NonceSize")
  case False
  with r show ?thesis by (simp add: xaes256gcmManual_Open_def)
next
  case True
  with r obtain a where "gcm_Open lib a h dst (reslice nonce 12 (len nonce)) ct ad = Ret (h1, Inl e)"
    by (cases "deriveKey x (load h (reslice nonce 0 12))")
       (auto simp: xaes256gcmManual_Open_def Let_def split: sum.splits)
  then show ?thesis by (auto dest: gcm_Open_error)
qed

lemma manual_Seal_Ret:
  "xaes256gcmManual_Seal lib x h dst nonce pt ad = Ret r \<Longrightarrow>
   \<exists>a n. gcm_Seal lib a h dst n pt ad = Ret r"
  by (cases "deriveKey x (load h (reslice nonce 0 12))")
     (auto simp: xaes256gcmManual_Seal_def Let_def split: if_splits sum.splits)

lemma auto_Seal_stage:
  assumes n0: "len nonce = 0" and al: "allocated h dst" and rnd: "rnd NonceSize = Some r"
  shows "\<exists>h' dst' nonce' nv.
           xaes256gcm_Seal lib rnd x h dst nonce pt ad
             = xaes256gcmManual_Seal lib (manual x) h' dst' nonce' pt ad \<and>
           len nonce' = 24 \<and> length nv = 24 \<and> (length r = 24 \<longrightarrow> nv = r) \<and>
           load h' nonce' = nv \<and> ptr nonce' = ptr dst' + len dst \<and>
           len dst' = len dst + 24 \<and> load h' dst' = load h dst @ nv \<and>
           len dst' + (len pt + 16) \<le> slice_cap dst' \<and>
           allocated h' dst' \<and> allocated h' nonce' \<and> brk h \<le> brk h' \<and>
           (\<forall>t. ptr t + len t \<le> brk h \<and> apart dst (len pt + Overhead) t \<longrightarrow>
                load h' t = load h t \<and> \<not> AnyOverlap (appended dst' (len pt + 16)) t)"
proof (cases "slice_cap dst < len dst + len pt + Overhead")
  case False
  then have cap: "len dst + len pt + 40 \<le> slice_cap dst" by (simp add: Overhead_def)
  let ?N = "reslice dst (len dst) (len dst + 24)"
  let ?nv = "copy_bytes (load h ?N) r"
  let ?h = "store h (ptr dst + len dst) ?nv"
  let ?d = "reslice dst 0 (len dst + 24)"
  have lnv: "length ?nv = 24" by simp
  have rd: "rand_Read rnd h ?N = Some ?h"
    using rnd by (simp add: rand_Read_def NonceSize_def)
  have seal: "xaes256gcm_Seal lib rnd x h dst nonce pt ad
                = xaes256gcmManual_Seal lib (manual x) ?h ?d ?N pt ad"
    using n0 False cap rd by (simp add: xaes256gcm_Seal_def Let_def NonceSize_def)
  have ldN: "load ?h ?N = ?nv"
    by (simp add: load_store_inside)
  have "load ?h ?d = load ?h (reslice ?d 0 (len dst)) @ load ?h (reslice ?d (len dst) (len ?d))"
    by (rule load_split) simp
  moreover have "load ?h (reslice ?d 0 (len dst)) = load h dst"
  proof -
    have "load ?h (reslice ?d 0 (len dst)) = load h (reslice ?d 0 (len dst))"
      by (rule load_store_other) simp
    also have "\<dots> = load h dst" by (rule load_cong) simp_all
    finally show ?thesis .
  qed
  moreover have "load ?h (reslice ?d (len dst) (len ?d)) = ?nv"
    by (simp add: load_store_inside)
  ultimately have ldd: "load ?h ?d = load h dst @ ?nv" by simp
  have a1: "allocated ?h ?d" "allocated ?h ?N"
    using al cap by (simp_all add: allocated_def slice_cap_def)
  have fr: "load ?h t = load h t \<and> \<not> AnyOverlap (appended ?d (len pt + 16)) t"
    if t: "ptr t + len t \<le> brk h \<and> apart dst (len pt + Overhead) t" for t
  proof -
    from t cap have "\<not> AnyOverlap (appended dst (len pt + 40)) t"
      by (simp add: apart_def Overhead_def)
    then have d: "len t = 0 \<or> ptr dst + len dst + (len pt + 40) \<le> ptr t
                   \<or> ptr t + len t \<le> ptr dst + len dst"
      by (auto simp: not_AnyOverlap_iff appended_def)
    then have "load ?h t = load h t"
      by (intro load_store_other) auto
    moreover from d have "\<not> AnyOverlap (appended ?d (len pt + 16)) t"
      by (auto simp: not_AnyOverlap_iff appended_def)
    ultimately show ?thesis by simp
  qed
  have c2: "len ?d + (len pt + 16) \<le> slice_cap ?d"
    using cap by (simp add: slice_cap_def)
  show ?thesis
    apply (rule exI[of _ ?h], rule exI[of _ ?d], rule exI[of _ ?N], rule exI[of _ ?nv])
    using seal ldN ldd a1 fr c2 lnv by (simp add: copy_bytes_full)
next
  case True
  let ?total = "len dst + len pt + Overhead"
  let ?hz = "(store h (brk h) (replicate ?total 0))\<lparr>brk := brk h + ?total\<rparr>"
  let ?tmp = "\<lparr>ptr = brk h, len = len dst, room = ?total - len dst\<rparr>"
  let ?ha = "store ?hz (brk h) (take (len dst) (load ?hz dst))"
  let ?N = "reslice ?tmp (len dst) (len dst + 24)"
  let ?nv = "copy_bytes (load ?ha ?N) r"
  let ?h = "store ?ha (brk h + len dst) ?nv"
  let ?d = "reslice ?tmp 0 (len dst + 24)"
  have lnv: "length ?nv = 24" by simp
  have l0: "load ?hz dst = load h dst"
    using allocated_len[OF al] by (simp add: load_store_other)
  have rd: "rand_Read rnd ?ha ?N = Some ?h"
    using rnd by (simp add: rand_Read_def NonceSize_def)
  have seal: "xaes256gcm_Seal lib rnd x h dst nonce pt ad
                = xaes256gcmManual_Seal lib (manual x) ?h ?d ?N pt ad"
    using n0 True rd
    by (simp add: xaes256gcm_Seal_def Let_def NonceSize_def make_slice_def copy_slice_def
        slice_cap_def Overhead_def)
  have ldN: "load ?h ?N = ?nv"
    by (simp add: load_store_inside)
  have "load ?h ?d = load ?h (reslice ?d 0 (len dst)) @ load ?h (reslice ?d (len dst) (len ?d))"
    by (rule load_split) simp
  moreover have "load ?h (reslice ?d 0 (len dst)) = load h dst"
  proof -
    have "load ?h (reslice ?d 0 (len dst)) = load ?ha (reslice ?d 0 (len dst))"
      by (rule load_store_other) simp
    also have "\<dots> = take (len dst) (load ?hz dst)"
      by (simp add: load_store_inside)
    also have "\<dots> = load h dst" using l0 by simp
    finally show ?thesis .
  qed
  moreover have "load ?h (reslice ?d (len dst) (len ?d)) = ?nv"
    by (simp add: load_store_inside)
  ultimately have ldd: "load ?h ?d = load h dst @ ?nv" by simp
  have a1: "allocated ?h ?d" "allocated ?h ?N"
    by (simp_all add: allocated_def slice_cap_def Overhead_def)
  have fr: "load ?h t = load h t \<and> \<not> AnyOverlap (appended ?d (len pt + 16)) t"
    if t: "ptr t + len t \<le> brk h \<and> apart dst (len pt + Overhead) t" for t
  proof -
    from t have "load ?h t = load h t"
      by (simp add: load_store_other)
    moreover from t have "\<not> AnyOverlap (appended ?d (len pt + 16)) t"
      by (simp add: not_AnyOverlap_iff appended_def)
    ultimately show ?thesis by simp
  qed
  have c2: "len ?d + (len pt + 16) \<le> slice_cap ?d"
    by (simp add: slice_cap_def Overhead_def)
  show ?thesis
    apply (rule exI[of _ ?h], rule exI[of _ ?d], rule exI[of _ ?N], rule exI[of _ ?nv])
    using seal ldN ldd a1 fr c2 lnv by (simp add: copy_bytes_full)
qed

lemma sliceForAppend_no_overlap:
  assumes al: "allocated h dst" "allocated h pt" "allocated h ad"
    and ov: "may_append dst n pt ad"
    and sfa: "sliceForAppend h dst n = (h', head, out)"
  shows "\<not> InexactOverlap out pt \<and> \<not> AnyOverlap out ad"
proof (cases "len dst + n \<le> slice_cap dst")
  case True
  with sfa ov show ?thesis
    by (simp add: sliceForAppend_place may_append_def)
next
  case False
  with sfa have "brk h \<le> ptr out"
    by (auto simp: sliceForAppend_fresh)
  with allocated_len[OF al(2)] allocated_len[OF al(3)]
  have "\<not> AnyOverlap out pt" "\<not> AnyOverlap out ad"
    by (simp_all add: not_AnyOverlap_iff)
  then show ?thesis using InexactOverlap_imp by blast
qed

lemma gcm_Seal_returns:
  assumes "len nonce = nonceSize g" and "len pt \<le> gcm_max_plaintext"
    and "allocated h dst" and "allocated h pt" and "allocated h ad"
    and "may_append dst (len pt + tagSize g) pt ad"
  shows "\<exists>r. gcm_Seal lib g h dst nonce pt ad = Ret r"
proof -
  obtain h' head out where sfa: "sliceForAppend h dst (len pt + tagSize g) = (h', head, out)"
    by (cases "sliceForAppend h dst (len pt + tagSize g)")
  from sliceForAppend_no_overlap[OF assms(3-6) sfa] assms(1,2) show ?thesis
    by (simp add: gcm_Seal_def sfa)
qed

lemma auto_Seal_no_rand:
  "len nonce = 0 \<Longrightarrow> rnd NonceSize = None \<Longrightarrow>
   xaes256gcm_Seal lib rnd x h dst nonce pt ad = Panic PanicRand"
  by (simp add: xaes256gcm_Seal_def Let_def rand_Read_def make_slice_def copy_slice_def
      NonceSize_def Overhead_def slice_cap_def)

lemma auto_Seal_spec:
  assumes lib: "gcm_seal_contract lib"
    and inst: "newWithManualNonces lib key = Ret (Inr (manual x))"
    and n0: "len nonce = 0" and rnd: "rnd NonceSize = Some r" and lr: "length r = 24"
    and sz: "len plaintext \<le> gcm_max_plaintext"
    and al: "allocated h dst" "allocated h plaintext" "allocated h ad"
    and ap: "apart dst (len plaintext + Overhead) plaintext"
      "apart dst (len plaintext + Overhead) ad"
  shows "\<exists>h1 out k.
           deriveKey (manual x) (take 12 r) = Ret k \<and>
           xaes256gcm_Seal lib rnd x h dst nonce plaintext ad = Ret (h1, out) \<and>
           len out = len dst + len plaintext + Overhead \<and>
           load h1 out = load h dst @ r
             @ gcm_seal lib (aes_encrypt lib k) (drop 12 r) (load h plaintext) (load h ad) \<and>
           allocated h1 out \<and> brk h \<le> brk h1 \<and>
           load h1 plaintext = load h plaintext \<and> load h1 ad = load h ad"
proof -
  let ?n = "len plaintext + 16"
  from auto_Seal_stage[where rnd = rnd and r = r and lib = lib and x = x and pt = plaintext and ad = ad,
      OF n0 al(1) rnd] lr
  obtain h' dst' N where seal: "xaes256gcm_Seal lib rnd x h dst nonce plaintext ad
        = xaes256gcmManual_Seal lib (manual x) h' dst' N plaintext ad"
    and lN: "len N = 24" and ldN: "load h' N = r"
    and ld': "len dst' = len dst + 24" and ldd: "load h' dst' = load h dst @ r"
    and a': "allocated h' dst'" "allocated h' N" and bk: "brk h \<le> brk h'"
    and fr: "\<And>t. ptr t + len t \<le> brk h \<and> apart dst (len plaintext + Overhead) t \<Longrightarrow>
                load h' t = load h t \<and> \<not> AnyOverlap (appended dst' ?n) t"
    by blast
  from fr[of plaintext] fr[of ad] al ap
  have keep: "load h' plaintext = load h plaintext" "load h' ad = load h ad"
    and no: "\<not> AnyOverlap (appended dst' ?n) plaintext" "\<not> AnyOverlap (appended dst' ?n) ad"
    by (simp_all add: allocated_len)
  have ma: "may_append dst' ?n plaintext ad"
    using no InexactOverlap_imp by (auto simp: may_append_def)
  have al': "allocated h' plaintext" "allocated h' ad"
    using al bk by (simp_all add: allocated_mono)
  from manual_key[OF inst lN, of h']
  obtain k where k: "deriveKey (manual x) (take 12 r) = Ret k"
    by (auto simp: ldN)
  let ?ct = "gcm_seal lib (aes_encrypt lib k) (drop 12 r) (load h plaintext) (load h ad)"
  from manual_Seal_spec[OF lib inst lN sz a'(1,2) al' ma, of k] k
  obtain h1 out where s1: "xaes256gcmManual_Seal lib (manual x) h' dst' N plaintext ad = Ret (h1, out)"
    and lo: "len out = len dst' + ?n"
    and ldo: "load h1 out = load h' dst' @ ?ct"
    and ao: "allocated h1 out" and bk1: "brk h' \<le> brk h1"
    and fr1: "\<And>t. ptr t + len t \<le> brk h' \<and> apart dst' ?n t \<Longrightarrow> load h1 t = load h' t"
    by (auto simp: ldN keep)
  have keep1: "load h1 plaintext = load h plaintext" "load h1 ad = load h ad"
    using fr1[of plaintext] fr1[of ad] no al' keep
    by (simp_all add: allocated_len apart_def)
  from seal s1 lo ld' ldo ldd ao bk bk1 keep1 k show ?thesis
    by (auto simp: Overhead_def)
qed

section \<open>The shift loop doubles in the field\<close>

lemma unat_push1: fixes b :: byte shows "unat (push_bit 1 b) = 2 * (unat b mod 128)"
proof -
  have "unat (push_bit 1 b) = take_bit LENGTH(8) (push_bit 1 (unat b))"
    by (rule unsigned_push_bit_eq)
  also have "\<dots> = (2 * unat b) mod (2 * 128)"
    by (simp add: take_bit_eq_mod push_bit_eq_mult mult.commute)
  finally show ?thesis by (simp only: mult_mod_right)
qed

lemma unat_drop7: fixes b :: byte shows "unat (drop_bit 7 b) = unat b div 128"
proof -
  have "unat (drop_bit 7 b) = drop_bit 7 (unat b)" by (rule unat_drop_bit_eq)
  then show ?thesis by (simp add: drop_bit_eq_div)
qed

lemma carry_bit: fixes b :: byte shows "drop_bit 7 b = 0 \<or> drop_bit 7 b = 1"
proof -
  have "unat b < 256" using unsigned_less[of b, where 'a=nat] by simp
  then have "unat b div 128 < 2" by simp
  then have "unat b div 128 = 0 \<or> unat b div 128 = 1" by linarith
  then have "unat (drop_bit 7 b) = 0 \<or> unat (drop_bit 7 b) = unat (1 :: byte)"
    unfolding unat_drop7 unat_1 .
  then show ?thesis
    unfolding unat_0_iff word_unat_eq_iff[symmetric] .
qed

lemma or_carry: fixes b m :: byte assumes "m = 0 \<or> m = 1"
  shows "push_bit 1 b OR m = push_bit 1 b + m"
proof -
  have "push_bit 1 b + m = push_bit 1 b OR m"
  proof (rule disjunctive_add)
    fix n show "\<not> bit (push_bit 1 b) n \<or> \<not> bit m n"
      using assms by (cases n) (auto simp: bit_0 bit_1_iff)
  qed
  then show ?thesis by (rule sym)
qed

lemma unat_or_carry: fixes b m :: byte assumes "m = 0 \<or> m = 1"
  shows "unat (push_bit 1 b OR m) = 2 * (unat b mod 128) + unat m"
proof -
  have m1: "unat m \<le> 1" using assms by auto
  have "unat b mod 128 \<le> 127" by simp
  with m1 have lt: "2 * (unat b mod 128) + unat m < 256" by linarith
  have "unat (push_bit 1 b + m) = (unat (push_bit 1 b) + unat m) mod 2 ^ LENGTH(8)"
    by (rule unat_word_ariths(1))
  also have "\<dots> = (2 * (unat b mod 128) + unat m) mod 256"
    unfolding unat_push1 by simp
  also have "\<dots> = 2 * (unat b mod 128) + unat m"
    using lt by (rule mod_less)
  finally show ?thesis unfolding or_carry[OF assms] .
qed

lemma byte_shift_step:
  fixes b m :: byte
  assumes "m = 0 \<or> m = 1"
  shows "256 * unat (drop_bit 7 b) + unat (push_bit 1 b OR m) = 2 * unat b + unat m"
proof -
  have "256 * (unat b div 128) + 2 * (unat b mod 128) = 2 * unat b"
    using div_mult_mod_eq[of "unat b" 128] by linarith
  then show ?thesis
    unfolding unat_drop7 unat_or_carry[OF assms] by linarith
qed

lemma be_nat_snoc: "be_nat (xs @ [b]) = 256 * be_nat xs + unat b"
  by (simp add: be_nat_def)

lemma be_nat_bound: "be_nat xs < 256 ^ length xs"
proof (induction xs rule: rev_induct)
  case Nil
  show ?case by (simp add: be_nat_def)
next
  case (snoc b xs)
  have "unat b < 256" using unsigned_less[of b, where 'a=nat] by simp
  with snoc show ?case by (simp add: be_nat_snoc)
qed

lemma be_word_snoc: "be_word (xs @ [b]) = push_bit 8 (be_word xs) OR ucast b"
  by (simp add: be_word_def)

lemma push8_or_ucast:
  "push_bit 8 (w :: 128 word) OR ucast (b :: byte) = 256 * w + ucast b"
proof -
  have "push_bit 8 w + ucast b = push_bit 8 w OR ucast b"
  proof (rule disjunctive_add)
    fix n show "\<not> bit (push_bit 8 w) n \<or> \<not> bit (ucast b :: 128 word) n"
      by (auto simp: bit_push_bit_iff bit_ucast_iff dest: bit_imp_le_length)
  qed
  then have "push_bit 8 w OR ucast b = push_bit 8 w + ucast b" by (rule sym)
  moreover have "push_bit 8 w = 256 * w" by (simp add: push_bit_eq_mult)
  ultimately show ?thesis by (simp only:)
qed

lemma be_word_nat: "be_word xs = word_of_nat (be_nat xs)"
proof (induction xs rule: rev_induct)
  case Nil
  show ?case by (simp add: be_word_def be_nat_def)
next
  case (snoc b xs)
  then show ?case
    by (simp only: be_word_snoc be_nat_snoc push8_or_ucast) simp
qed

lemma shift_loop_value:
  assumes "i \<le> length k" and "m = 0 \<or> m = 1"
  shows "case shift_loop i m k of
           (m', s) \<Rightarrow>
             length s = length k \<and> drop i s = drop i k \<and> (m' = 0 \<or> m' = 1) \<and>
             unat m' * 256 ^ i + be_nat (take i s) = 2 * be_nat (take i k) + unat m"
  using assms
proof (induction i arbitrary: m k)
  case 0
  then show ?case by (simp add: be_nat_def)
next
  case (Suc i)
  let ?m1 = "drop_bit 7 (k ! i)"
  let ?v = "push_bit 1 (k ! i) OR m"
  let ?k1 = "k[i := ?v]"
  obtain m' s where res: "shift_loop i ?m1 ?k1 = (m', s)"
    by (cases "shift_loop i ?m1 ?k1")
  from Suc.prems have i: "i < length k" by simp
  have "i \<le> length ?k1" using i by simp
  from Suc.IH[OF this carry_bit[of "k ! i"]] res
  have len: "length s = length k" and dr: "drop i s = drop i ?k1"
    and m': "m' = 0 \<or> m' = 1"
    and val: "unat m' * 256 ^ i + be_nat (take i s) = 2 * be_nat (take i k) + unat ?m1"
    by simp_all
  have si: "s ! i = ?v"
  proof -
    have "s ! i = drop i s ! 0" using i len by simp
    also have "\<dots> = drop i ?k1 ! 0" by (simp only: dr)
    also have "\<dots> = ?v" using i by simp
    finally show ?thesis .
  qed
  have dr': "drop (Suc i) s = drop (Suc i) k"
  proof -
    have "drop (Suc i) s = drop 1 (drop i s)" by simp
    also have "\<dots> = drop 1 (drop i ?k1)" by (simp only: dr)
    also have "\<dots> = drop (Suc i) k" by simp
    finally show ?thesis .
  qed
  have ts: "take (Suc i) s = take i s @ [?v]"
    using i len si by (simp add: take_Suc_conv_app_nth)
  have tk: "take (Suc i) k = take i k @ [k ! i]"
    using i by (simp add: take_Suc_conv_app_nth)
  have "unat m' * 256 ^ Suc i + be_nat (take (Suc i) s)
        = 256 * (unat m' * 256 ^ i + be_nat (take i s)) + unat ?v"
    unfolding ts be_nat_snoc by (simp add: algebra_simps)
  also have "\<dots> = 256 * (2 * be_nat (take i k)) + (256 * unat ?m1 + unat ?v)"
    unfolding val by (simp add: algebra_simps)
  also have "\<dots> = 2 * be_nat (take (Suc i) k) + unat m"
    unfolding byte_shift_step[OF Suc.prems(2)] tk be_nat_snoc by (simp add: algebra_simps)
  finally have "unat m' * 256 ^ Suc i + be_nat (take (Suc i) s)
                  = 2 * be_nat (take (Suc i) k) + unat m" .
  then show ?case
    using res len dr' m' by simp
qed

lemma be_word_update_last:
  assumes "length s = Suc n"
  shows "be_word (s[n := s ! n XOR cb]) = be_word s XOR ucast cb"
proof -
  from assms obtain xs x where s: "s = xs @ [x]" and n: "n = length xs"
    by (metis length_Suc_conv_rev)
  have "push_bit 8 (be_word xs) OR (ucast (x XOR cb) :: 128 word)
        = (push_bit 8 (be_word xs) OR ucast x) XOR ucast cb"
    by (rule bit_eqI) (auto simp: bit_simps dest: bit_imp_le_length)
  then show ?thesis
    by (simp add: s n be_word_snoc)
qed

lemma top_bit_nat:
  assumes "n < 2 ^ 128"
  shows "bit (word_of_nat n :: 128 word) 127 \<longleftrightarrow> 2 ^ 127 \<le> n"
proof -
  have "n div 2 ^ 127 < 2" using assms by (simp add: less_mult_imp_div_less)
  then have "odd (n div 2 ^ 127) \<longleftrightarrow> n div 2 ^ 127 = 1"
    by (auto simp: less_2_cases_iff)
  also have "\<dots> \<longleftrightarrow> 2 ^ 127 \<le> n"
    using assms \<open>n div 2 ^ 127 < 2\<close>
    by (metis One_nat_def Suc_le_eq div_greater_zero_iff div_less less_2_cases_iff
        not_less zero_less_numeral zero_less_power)
  finally have "bit n 127 \<longleftrightarrow> 2 ^ 127 \<le> n"
    by (simp only: bit_iff_odd)
  moreover have "bit (word_of_nat n :: 128 word) 127 \<longleftrightarrow> bit n 127"
    by (simp only: bit_of_nat_iff) simp
  ultimately show ?thesis by (simp only:)
qed

lemma shift_xor_double:
  assumes "length l = 16"
  shows "be_word (shift_xor l) = gf128_double (be_word l)"
proof -
  obtain msb s where res: "shift_loop 16 0 l = (msb, s)"
    by (cases "shift_loop 16 0 l")
  from shift_loop_value[of 16 l 0] res assms
  have len: "length s = 16" and msb: "msb = 0 \<or> msb = 1"
    and val: "unat msb * 256 ^ 16 + be_nat s = 2 * be_nat l"
    by auto
  have p: "(256::nat) ^ 16 = 2 ^ 128" by simp
  have bs: "be_nat s < 2 ^ 128" and bl: "be_nat l < 2 ^ 128"
    using be_nat_bound[of s] be_nat_bound[of l] len assms by (simp_all only: p)
  have "(word_of_nat (unat msb * 256 ^ 16 + be_nat s) :: 128 word) = word_of_nat (2 * be_nat l)"
    by (simp only: val)
  moreover have "(word_of_nat (unat msb * 256 ^ 16 + be_nat s) :: 128 word)
        = word_of_nat (unat msb) * word_of_nat (2 ^ 128) + word_of_nat (be_nat s)"
    by (simp only: of_nat_add of_nat_mult p)
  moreover have "(word_of_nat (2 ^ 128) :: 128 word) = 0"
    by (simp only: word_of_nat_eq_0_iff) simp
  ultimately have "(word_of_nat (be_nat s) :: 128 word) = word_of_nat (2 * be_nat l)"
    by (simp only: mult_zero_right add_0_left)
  then have shifted: "be_word s = push_bit 1 (be_word l)"
    by (simp add: be_word_nat push_bit_eq_mult)
  have top: "bit (be_word l) 127 \<longleftrightarrow> msb = 1"
  proof -
    have "bit (be_word l) 127 \<longleftrightarrow> 2 ^ 127 \<le> be_nat l"
      unfolding be_word_nat by (rule top_bit_nat[OF bl])
    also have "\<dots> \<longleftrightarrow> msb = 1"
      using msb val bs unfolding p by auto
    finally show ?thesis .
  qed
  have red: "(ucast (msb * 0x87) :: 128 word) = (if bit (be_word l) 127 then 0x87 else 0)"
    using msb by (auto simp: top)
  have "shift_xor l = s[15 := s ! 15 XOR msb * 0x87]"
    using res len assms by (simp add: shift_xor_def)
  then have "be_word (shift_xor l) = be_word s XOR ucast (msb * 0x87)"
    using be_word_update_last[of s 15 "msb * 0x87"] len by simp
  then show ?thesis
    by (simp only: shifted red gf128_double_def)
qed

section \<open>The reference library meets the contracts\<close>

lemma mix_columns_length [simp]: "length (mix_columns s) = length s"
  by (induction s rule: mix_columns.induct) simp_all

lemma shift_rows_length [simp]: "length (shift_rows s) = 16"
  by (simp add: shift_rows_def)

lemma rounds_length:
  "length s = 16 \<Longrightarrow> \<forall>k \<in> set ks. length k = 16 \<Longrightarrow> length (rounds ks s) = 16"
  by (induction ks s rule: rounds.induct) (simp_all add: add_round_key_def)

lemma aes_cipher_length:
  "length b = 16 \<Longrightarrow> \<forall>k \<in> set rks. length k = 16 \<Longrightarrow> length (aes_cipher rks b) = 16"
  by (cases rks) (simp_all add: rounds_length add_round_key_def)

lemma sched_temp_length [simp]: "length (sched_temp nk i rcon w) = length w"
  by (cases "map sub_byte (rotate1 w)")
     (auto simp: sched_temp_def dest: arg_cong[where f = length])

lemma expand_key_words:
  "\<forall>w \<in> set ws. length w = 4 \<Longrightarrow> 0 < nk \<Longrightarrow> nk \<le> length ws \<Longrightarrow>
   \<forall>w \<in> set (expand_key nk i n rcon ws). length w = 4"
proof (induction n arbitrary: i rcon ws)
  case 0
  then show ?case by simp
next
  case (Suc n)
  from Suc.prems have ne: "ws \<noteq> []" and idx: "nk - 1 < length ws" by auto
  then have "hd ws \<in> set ws" and "ws ! (nk - 1) \<in> set ws" by simp_all
  with Suc.prems(1) have "length (hd ws) = 4" and "length (ws ! (nk - 1)) = 4" by simp_all
  then have "length (map2 (XOR) (ws ! (nk - 1)) (sched_temp nk i rcon (hd ws))) = 4"
    by simp
  with Suc.prems show ?case
    by (simp only: expand_key.simps) (rule Suc.IH, simp_all)
qed

lemma chunks4_words: "\<forall>w \<in> set (chunks4 xs). length w = 4"
  by (induction xs rule: chunks4.induct) simp_all

lemma chunks4_length: "length (chunks4 xs) = length xs div 4"
  by (induction xs rule: chunks4.induct) simp_all

lemma chunks4_concat:
  "\<forall>w \<in> set ws. length w = 4 \<Longrightarrow> \<forall>r \<in> set (map concat (chunks4 ws)). length r = 16"
  by (induction ws rule: chunks4.induct) simp_all

lemma round_keys_length:
  assumes "length key = 32"
  shows "\<forall>k \<in> set (round_keys key). length k = 16"
proof -
  have "\<forall>w \<in> set (expand_key 8 8 52 1 (rev (chunks4 key))). length w = 4"
    using assms by (intro expand_key_words) (simp_all add: chunks4_words chunks4_length)
  then show ?thesis
    unfolding round_keys_def assms by (simp add: chunks4_concat)
qed

lemma ref_aes_length:
  "length key = 32 \<Longrightarrow> length b = 16 \<Longrightarrow> length (ref_aes key b) = 16"
  by (simp add: ref_aes_def aes_cipher_length round_keys_length)

lemma ref_aes_contract: "aes_contract ref_lib"
  by (simp add: aes_contract_def ref_lib_def ref_aes_length)

lemma enc_block_length [simp]: "length (enc_block f b) = 16"
  by (simp add: enc_block_def)

lemma be_bytes_length [simp]: "length (be_bytes k n) = k"
  by (induction k arbitrary: n) simp_all

lemma gcm_tag_length [simp]: "length (gcm_tag f n a ct) = 16"
  by (simp add: gcm_tag_def)

lemma gctr_Nil [simp]: "gctr m f n ctr [] = []"
  by (induction m arbitrary: ctr) simp_all

lemma gctr_length:
  "length xs \<le> 16 * m \<Longrightarrow> length (gctr m f n ctr xs) = length xs"
  by (induction m arbitrary: ctr xs) auto

lemma xor_twice:
  fixes a e :: bytes
  shows "length a \<le> length e \<Longrightarrow> map2 (XOR) (map2 (XOR) a e) e = a"
proof (induction a arbitrary: e)
  case Nil
  then show ?case by simp
next
  case (Cons x a)
  then show ?case by (cases e) (simp_all add: xor.assoc)
qed

lemma gctr_twice:
  "length xs \<le> 16 * m \<Longrightarrow> gctr m f n ctr (gctr m f n ctr xs) = xs"
proof (induction m arbitrary: ctr xs)
  case 0
  then show ?case by simp
next
  case (Suc m)
  let ?e = "enc_block f (n @ be_bytes 4 ctr)"
  let ?a = "map2 (XOR) (take 16 xs) ?e"
  let ?b = "gctr m f n (ctr + 1) (drop 16 xs)"
  have la: "length ?a = min 16 (length xs)" by simp
  have xa: "map2 (XOR) ?a ?e = take 16 xs" by (rule xor_twice) simp
  from Suc.prems have rest: "length (drop 16 xs) \<le> 16 * m" by simp
  show ?case
  proof (cases "16 \<le> length xs")
    case True
    with la have "take 16 (?a @ ?b) = ?a" and "drop 16 (?a @ ?b) = ?b" by simp_all
    then have "gctr (Suc m) f n ctr (?a @ ?b) = take 16 xs @ gctr m f n (ctr + 1) ?b"
      by (simp only: gctr.simps xa)
    then show ?thesis
      by (simp add: Suc.IH[OF rest])
  next
    case False
    then have b: "?b = []" by simp
    from False la have "take 16 ?a = ?a" and "drop 16 ?a = []" by simp_all
    then have "gctr (Suc m) f n ctr ?a = take 16 xs"
      by (simp only: gctr.simps xa gctr_Nil append_Nil2)
    with False show ?thesis by (simp add: b)
  qed
qed

lemma gcm_ctr_length [simp]: "length (gcm_ctr f n xs) = length xs"
  by (simp add: gcm_ctr_def gctr_length)

lemma gcm_ctr_twice: "gcm_ctr f n (gcm_ctr f n xs) = xs"
proof -
  have "length (gctr ((length xs + 15) div 16) f n 2 xs) = length xs"
    by (simp add: gctr_length)
  then show ?thesis
    by (simp add: gcm_ctr_def gctr_twice)
qed

lemma ref_gcm_seal_length: "length (ref_gcm_seal f n p a) = length p + 16"
  by (simp add: ref_gcm_seal_def with_tag_def)

lemma ref_gcm_open_seal: "ref_gcm_open f n (ref_gcm_seal f n p a) a = Some p"
  by (simp add: ref_gcm_open_def ref_gcm_seal_def with_tag_def gcm_ctr_twice)

lemma ref_gcm_seal_contract: "gcm_seal_contract ref_lib"
  by (simp add: gcm_seal_contract_def ref_lib_def ref_gcm_seal_length)

lemma ref_gcm_open_contract: "gcm_open_contract ref_lib"
  by (simp add: gcm_open_contract_def ref_lib_def ref_gcm_open_seal)

section \<open>Evaluating the reference library on the test vector\<close>

lemma sbox_rows:
  "sbox ! 0 = [99, 124, 119, 123, 242, 107, 111, 197, 48, 1, 103, 43, 254, 215, 171,
                  118]"
  "sbox ! Suc 0 = [202, 130, 201, 125, 250, 89, 71, 240, 173, 212, 162, 175, 156, 164,
                  114, 192]"
  "sbox ! 2 = [183, 253, 147, 38, 54, 63, 247, 204, 52, 165, 229, 241, 113, 216, 49,
                  21]"
  "sbox ! 3 = [4, 199, 35, 195, 24, 150, 5, 154, 7, 18, 128, 226, 235, 39, 178, 117]"
  "sbox ! 4 = [9, 131, 44, 26, 27, 110, 90, 160, 82, 59, 214, 179, 41, 227, 47, 132]"
  "sbox ! 5 = [83, 209, 0, 237, 32, 252, 177, 91, 106, 203, 190, 57, 74, 76, 88, 207]"
  "sbox ! 6 = [208, 239, 170, 251, 67, 77, 51, 133, 69, 249, 2, 127, 80, 60, 159,
                  168]"
  "sbox ! 7 = [81, 163, 64, 143, 146, 157, 56, 245, 188, 182, 218, 33, 16, 255, 243,
                  210]"
  "sbox ! 8 = [205, 12, 19, 236, 95, 151, 68, 23, 196, 167, 126, 61, 100, 93, 25,
                  115]"
  "sbox ! 9 = [96, 129, 79, 220, 34, 42, 144, 136, 70, 238, 184, 20, 222, 94, 11,
                  219]"
  "sbox ! 10 = [224, 50, 58, 10, 73, 6, 36, 92, 194, 211, 172, 98, 145, 149, 228, 121]"
  "sbox ! 11 = [231, 200, 55, 109, 141, 213, 78, 169, 108, 86, 244, 234, 101, 122,
                  174, 8]"
  "sbox ! 12 = [186, 120, 37, 46, 28, 166, 180, 198, 232, 221, 116, 31, 75, 189, 139,
                  138]"
  "sbox ! 13 = [112, 62, 181, 102, 72, 3, 246, 14, 97, 53, 87, 185, 134, 193, 29, 158]"
  "sbox ! 14 = [225, 248, 152, 17, 105, 217, 142, 148, 155, 30, 135, 233, 206, 85,
                  40, 223]"
  "sbox ! 15 = [140, 161, 137, 13, 191, 230, 66, 104, 65, 153, 45, 15, 176, 84, 187,
                  22]"
  by (simp_all add: sbox_def)

lemma expand_key_numeral:
  "expand_key nk i (numeral n) rcon ws =
     expand_key nk (Suc i) (pred_numeral n) (if i mod nk = 0 then xtime rcon else rcon)
       (map2 (XOR) (ws ! (nk - 1)) (sched_temp nk i rcon (hd ws)) # ws)"
  by (simp only: numeral_eq_Suc[of n] expand_key.simps)

lemma gf_mul_loop_numeral:
  "gf_mul_loop (numeral n) x v z =
     gf_mul_loop (pred_numeral n) x
       (if odd v then v div 2 XOR 0xe1000000000000000000000000000000 else v div 2)
       (if bit x (pred_numeral n) then z XOR v else z)"
  by (simp only: numeral_eq_Suc[of n] gf_mul_loop.simps)

lemma be_bytes_numeral:
  "be_bytes (numeral k) n = be_bytes (pred_numeral k) (n div 256) @ [word_of_nat (n mod 256)]"
  by (simp only: numeral_eq_Suc[of k] be_bytes.simps)

lemma replicate_numeral: "replicate (numeral n) x = x # replicate (pred_numeral n) x"
  by (simp only: numeral_eq_Suc[of n] replicate.simps)

lemma round_keys_32:
  "length key = 32 \<Longrightarrow>
   round_keys key = map concat (chunks4 (expand_key 8 8 52 1 (rev (chunks4 key))))"
  by (simp add: round_keys_def)

lemma kat_key_length: "length kat_key = 32"
  by (simp add: kat_key_def)

lemma kat_round_keys:
  "round_keys kat_key =
     [[1, 1, 1, 1, 1, 1, 1, 1, 1, 1, 1, 1, 1, 1, 1, 1],
      [1, 1, 1, 1, 1, 1, 1, 1, 1, 1, 1, 1, 1, 1, 1, 1],
      [124, 125, 125, 125, 125, 124, 124, 124, 124, 125, 125, 125, 125, 124, 124, 124],
      [254, 17, 17, 17, 255, 16, 16, 16, 254, 17, 17, 17, 255, 16, 16, 16],
      [180, 183, 183, 107, 201, 203, 203, 23, 181, 182, 182, 106, 200, 202, 202, 22],
      [22, 101, 101, 86, 233, 117, 117, 70, 23, 100, 100, 87, 232, 116, 116, 71],
      [34, 37, 23, 240, 235, 238, 220, 231, 94, 88, 106, 141, 150, 146, 160, 155],
      [134, 42, 133, 66, 111, 95, 240, 4, 120, 59, 148, 83, 144, 79, 224, 20],
      [174, 196, 237, 144, 69, 42, 49, 119, 27, 114, 91, 250, 141, 224, 251, 97],
      [219, 203, 138, 173, 180, 148, 122, 169, 204, 175, 238, 250, 92, 224, 14, 238],
      [95, 111, 197, 218, 26, 69, 244, 173, 1, 55, 175, 87, 140, 215, 84, 54],
      [191, 197, 170, 168, 11, 81, 208, 1, 199, 254, 62, 251, 155, 30, 48, 21],
      [13, 107, 156, 206, 23, 46, 104, 99, 22, 25, 199, 52, 154, 206, 147, 2],
      [7, 78, 118, 223, 12, 31, 166, 222, 203, 225, 152, 37, 80, 255, 168, 48],
      [91, 169, 152, 157, 76, 135, 240, 254, 90, 158, 55, 202, 192, 80, 164, 200]]"
  unfolding round_keys_32[OF kat_key_length]
  by (simp add: kat_key_def replicate_numeral expand_key_numeral sched_temp_def sub_byte_def
      sbox_rows xtime_def)

lemma kat_aes_zero:
  "ref_aes kat_key (replicate 16 0) =
     [114, 152, 202, 165, 101, 3, 30, 173, 198, 206, 35, 210, 62, 166, 99, 120]"
  unfolding ref_aes_def kat_round_keys
  by (simp add: replicate_numeral add_round_key_def shift_rows_def sub_byte_def sbox_rows xtime_def)

lemma kat_shift_xor:
  "shift_xor [114, 152, 202, 165, 101, 3, 30, 173, 198, 206, 35, 210, 62, 166, 99, 120] = kat_k1"
  by (simp add: shift_xor_def kat_k1_def)

lemma kat_new: "newWithManualNonces ref_lib kat_key = Ret (Inr kat_instance)"
proof -
  have "aes_encrypt ref_lib = ref_aes" by (simp add: ref_lib_def)
  then show ?thesis
    by (simp add: newWithManualNonces_32[OF kat_key_length] kat_aes_zero copy_bytes_full
        kat_shift_xor kat_instance_def)
qed

lemma kat_aes_block1:
  "ref_aes kat_key (map2 (XOR) ([0, 1, 0x58, 0] @ take 12 kat_nonce) kat_k1) =
     [200, 97, 44, 158, 213, 63, 228, 62, 142, 0, 91, 130, 138, 22, 49, 160]"
  unfolding ref_aes_def kat_round_keys
  by (simp add: kat_nonce_def kat_k1_def add_round_key_def shift_rows_def sub_byte_def sbox_rows xtime_def)

lemma kat_aes_block2:
  "ref_aes kat_key (map2 (XOR) ([0, 2, 0x58, 0] @ take 12 kat_nonce) kat_k1) =
     [187, 203, 106, 178, 244, 101, 20, 236, 79, 67, 159, 207, 208, 250, 150, 155]"
  unfolding ref_aes_def kat_round_keys
  by (simp add: kat_nonce_def kat_k1_def add_round_key_def shift_rows_def sub_byte_def sbox_rows xtime_def)

lemma kat_deriveKey: "deriveKey kat_instance (take 12 kat_nonce) = Ret kat_derived_key"
proof -
  have len: "length (take 12 kat_nonce) = 12" by (simp add: kat_nonce_def)
  have k1: "k1 kat_instance = kat_k1" and enc: "aes_encrypt ref_lib = ref_aes"
    by (simp_all add: kat_instance_def ref_lib_def)
  show ?thesis
    unfolding deriveKey_12[OF kat_new len] k1 enc kat_aes_block1 kat_aes_block2
    by (simp add: kat_k1_def kat_nonce_def copy_bytes_def kat_derived_key_def)
qed

lemma kat_derived_key_length: "length kat_derived_key = 32"
  by (simp add: kat_derived_key_def)

lemma kat_derived_round_keys:
  "round_keys kat_derived_key =
     [[200, 97, 44, 158, 213, 63, 228, 62, 142, 0, 91, 130, 138, 22, 49, 160],
      [187, 203, 106, 178, 244, 101, 20, 236, 79, 67, 159, 207, 208, 250, 150, 155],
      [228, 241, 56, 238, 49, 206, 220, 208, 191, 206, 135, 82, 53, 216, 182, 242],
      [45, 170, 36, 59, 217, 207, 48, 215, 150, 140, 175, 24, 70, 118, 57, 131],
      [222, 227, 212, 180, 239, 45, 8, 100, 80, 227, 143, 54, 101, 59, 57, 196],
      [96, 72, 54, 39, 185, 135, 6, 240, 47, 11, 169, 232, 105, 125, 144, 107],
      [37, 131, 171, 77, 202, 174, 163, 41, 154, 77, 44, 31, 255, 118, 21, 219],
      [118, 112, 111, 158, 207, 247, 105, 110, 224, 252, 192, 134, 137, 129, 80, 237],
      [33, 208, 254, 234, 235, 126, 93, 195, 113, 51, 113, 220, 142, 69, 100, 7],
      [111, 30, 44, 91, 160, 233, 69, 53, 64, 21, 133, 179, 201, 148, 213, 94],
      [19, 211, 166, 55, 248, 173, 251, 244, 137, 158, 138, 40, 7, 219, 238, 47],
      [170, 167, 4, 78, 10, 78, 65, 123, 74, 91, 196, 200, 131, 207, 17, 150],
      [185, 81, 54, 219, 65, 252, 205, 47, 200, 98, 71, 7, 207, 185, 169, 40],
      [32, 241, 215, 122, 42, 191, 150, 1, 96, 228, 82, 201, 227, 43, 67, 95],
      [8, 75, 249, 202, 73, 183, 52, 229, 129, 213, 115, 226, 78, 108, 218, 202]]"
  unfolding round_keys_32[OF kat_derived_key_length]
  by (simp add: kat_derived_key_def expand_key_numeral sched_temp_def sub_byte_def sbox_rows
      xtime_def)

lemma kat_hash_key:
  "enc_block (ref_aes kat_derived_key) (replicate 16 0) =
     [127, 79, 167, 96, 2, 37, 143, 193, 66, 52, 254, 47, 221, 42, 38, 9]"
  unfolding enc_block_def ref_aes_def kat_derived_round_keys
  by (simp add: replicate_numeral copy_bytes_def add_round_key_def shift_rows_def sub_byte_def sbox_rows xtime_def)

lemma kat_tag_mask:
  "enc_block (ref_aes kat_derived_key) (drop 12 kat_nonce @ [0, 0, 0, 1]) =
     [27, 43, 20, 238, 175, 77, 197, 75, 114, 188, 59, 250, 55, 11, 1, 119]"
  unfolding enc_block_def ref_aes_def kat_derived_round_keys
  by (simp add: kat_nonce_def replicate_numeral copy_bytes_def add_round_key_def shift_rows_def sub_byte_def sbox_rows xtime_def)

lemma kat_key_stream:
  "enc_block (ref_aes kat_derived_key) (drop 12 kat_nonce @ be_bytes 4 2) =
     [150, 21, 43, 165, 17, 174, 243, 49, 72, 213, 117, 68, 220, 211, 169, 250]"
  unfolding enc_block_def ref_aes_def kat_derived_round_keys
  by (simp add: kat_nonce_def be_bytes_numeral replicate_numeral copy_bytes_def add_round_key_def shift_rows_def sub_byte_def sbox_rows xtime_def)

lemma kat_gcm_ctr:
  "gcm_ctr (ref_aes kat_derived_key) (drop 12 kat_nonce) kat_plaintext =
     [206, 84, 110, 246, 60, 156, 198, 7, 101, 146, 54, 9]"
proof -
  have "length kat_plaintext = 12" by (simp add: kat_plaintext_def)
  then have "gcm_ctr (ref_aes kat_derived_key) (drop 12 kat_nonce) kat_plaintext =
               map2 (XOR) kat_plaintext
                 (enc_block (ref_aes kat_derived_key) (drop 12 kat_nonce @ be_bytes 4 2))"
    by (simp add: gcm_ctr_def)
  then show ?thesis
    unfolding kat_key_stream by (simp add: kat_plaintext_def)
qed

lemma kat_ghash_input:
  "ghash_input [] [206, 84, 110, 246, 60, 156, 198, 7, 101, 146, 54, 9] =
     [206, 84, 110, 246, 60, 156, 198, 7, 101, 146, 54, 9, 0, 0, 0, 0, 0, 0, 0, 0, 0,
      0, 0, 0, 0, 0, 0, 0, 0, 0, 0, 96]"
  by (simp add: ghash_input_def pad16_def be_bytes_numeral replicate_numeral)

lemma kat_ghash_block1:
  "gf_mul (be_nat [206, 84, 110, 246, 60, 156, 198, 7, 101, 146, 54, 9, 0, 0, 0, 0])
     169225541685480357578142419425738499593 = 193263275728746958818459858385841833230"
  by (simp add: be_nat_def gf_mul_def gf_mul_loop_numeral bit_Suc_0_iff)

lemma kat_ghash_block2:
  "gf_mul (193263275728746958818459858385841833230 XOR be_nat [0, 0, 0, 0, 0, 0, 0, 0, 0, 0, 0, 0, 0, 0, 0, 96])
     169225541685480357578142419425738499593 = 223401472077957107261272582173196886790"
  by (simp add: be_nat_def gf_mul_def gf_mul_loop_numeral bit_Suc_0_iff)

lemma kat_ghash:
  "ghash (be_nat [127, 79, 167, 96, 2, 37, 143, 193, 66, 52, 254, 47, 221, 42, 38, 9])
     [206, 84, 110, 246, 60, 156, 198, 7, 101, 146, 54, 9, 0, 0, 0, 0, 0, 0, 0, 0, 0,
      0, 0, 0, 0, 0, 0, 0, 0, 0, 0, 96]
   = 223401472077957107261272582173196886790"
proof -
  have h: "be_nat [127, 79, 167, 96, 2, 37, 143, 193, 66, 52, 254, 47, 221, 42, 38, 9] = 169225541685480357578142419425738499593"
    by (simp add: be_nat_def)
  have "blocks16 (32 div 16) [206, 84, 110, 246, 60, 156, 198, 7, 101, 146, 54, 9, 0, 0, 0, 0, 0, 0, 0, 0, 0,
      0, 0, 0, 0, 0, 0, 0, 0, 0, 0, 96]
        = [[206, 84, 110, 246, 60, 156, 198, 7, 101, 146, 54, 9, 0, 0, 0, 0], [0, 0, 0, 0, 0, 0, 0, 0, 0, 0, 0, 0, 0, 0, 0, 96]]"
    by (simp add: numeral_2_eq_2)
  then show ?thesis
    unfolding ghash_def h by (simp add: kat_ghash_block1 kat_ghash_block2)
qed

lemma kat_gcm_tag:
  "gcm_tag (ref_aes kat_derived_key) (drop 12 kat_nonce) []
     [206, 84, 110, 246, 60, 156, 198, 7, 101, 146, 54, 9] =
   [179, 58, 154, 25, 116, 233, 110, 82, 218, 242, 252, 247, 7, 94, 34, 113]"
  unfolding gcm_tag_def kat_hash_key kat_tag_mask kat_ghash_input kat_ghash
  by (simp add: be_bytes_numeral)

lemma kat_gcm_seal:
  "ref_gcm_seal (ref_aes kat_derived_key) (drop 12 kat_nonce) kat_plaintext [] = kat_ciphertext"
  unfolding ref_gcm_seal_def with_tag_def kat_gcm_ctr kat_gcm_tag
  by (simp add: kat_ciphertext_def)

lemma kat_nonce_length: "length kat_nonce = 24"
  by (simp add: kat_nonce_def)

section \<open>The test vector in memory\<close>

lemma reslice_whole: "reslice s 0 (len s) = s"
  by (simp add: reslice_def slice_cap_def)

lemma load_nil [simp]: "load h nil_slice = []"
  by (simp add: load_def nil_slice_def)

lemma nil_slice_simps [simp]: "ptr nil_slice = 0" "len nil_slice = 0" "room nil_slice = 0"
  by (simp_all add: nil_slice_def)

lemma slice_at_simps [simp]:
  "ptr (slice_at a n) = a" "len (slice_at a n) = n" "room (slice_at a n) = 0"
  by (simp_all add: slice_at_def)

lemma allocated_nil [simp]: "allocated h nil_slice"
  by (simp add: allocated_def slice_cap_def)

lemma may_append_full [simp]: "room dst = 0 \<Longrightarrow> 0 < n \<Longrightarrow> may_append dst n input ad"
  by (simp add: may_append_def slice_cap_def)

lemma apart_full [simp]: "room dst = 0 \<Longrightarrow> 0 < n \<Longrightarrow> apart dst n s"
  by (simp add: apart_def slice_cap_def)

lemma brk_mem_of [simp]: "brk (mem_of bs) = length bs"
  by (simp add: mem_of_def)

lemma allocated_slice_at: "allocated h (slice_at a n) \<longleftrightarrow> a + n \<le> brk h"
  by (simp add: allocated_def slice_cap_def)

lemma kat_lengths:
  "length kat_nonce = 24" "length kat_plaintext = 12" "length kat_ciphertext = 28"
  by (simp_all add: kat_nonce_def kat_plaintext_def kat_ciphertext_def)

lemma kat_mem_loads:
  "load kat_mem (slice_at 0 24) = kat_nonce"
  "load kat_mem (slice_at 24 12) = kat_plaintext"
  by (simp_all add: kat_mem_def load_mem_of kat_lengths)

lemma kat_mem_allocated:
  "allocated kat_mem (slice_at 0 24)" "allocated kat_mem (slice_at 24 12)"
  by (simp_all add: allocated_slice_at kat_mem_def kat_lengths)

lemma small_plaintext: "12 \<le> gcm_max_plaintext"
  by (simp add: gcm_max_plaintext_def)

lemma ref_lib_simps [simp]:
  "aes_encrypt ref_lib = ref_aes" "gcm_seal ref_lib = ref_gcm_seal"
  "gcm_open ref_lib = ref_gcm_open"
  by (simp_all add: ref_lib_def)

text \<open>Manual-mode \<open>Seal\<close> on the test vector, into an empty \<open>dst\<close>.\<close>

lemma kat_seal:
  "\<exists>h1 sealed.
     xaes256gcmManual_Seal ref_lib kat_instance kat_mem nil_slice (slice_at 0 24)
       (slice_at 24 12) nil_slice = Ret (h1, sealed) \<and>
     len sealed = 28 \<and> load h1 sealed = kat_ciphertext \<and> allocated h1 sealed \<and>
     allocated h1 (slice_at 0 24) \<and> load h1 (slice_at 0 24) = kat_nonce"
proof -
  have k: "deriveKey kat_instance (take 12 (load kat_mem (slice_at 0 24))) = Ret kat_derived_key"
    by (simp add: kat_mem_loads kat_deriveKey)
  have sz: "len (slice_at 24 12) \<le> gcm_max_plaintext"
    by (simp add: small_plaintext)
  have m: "may_append nil_slice (len (slice_at 24 12) + 16) (slice_at 24 12) nil_slice"
    by simp
  from manual_Seal_spec[OF ref_gcm_seal_contract kat_new _ sz allocated_nil
      kat_mem_allocated allocated_nil m k]
  obtain h1 sealed where s: "xaes256gcmManual_Seal ref_lib kat_instance kat_mem nil_slice
        (slice_at 0 24) (slice_at 24 12) nil_slice = Ret (h1, sealed)"
    and l: "len sealed = 28" and ld: "load h1 sealed = kat_ciphertext"
    and a: "allocated h1 sealed" and b: "brk kat_mem \<le> brk h1"
    and fr: "\<And>t. ptr t + len t \<le> brk kat_mem \<and> apart nil_slice (12 + 16) t
               \<Longrightarrow> load h1 t = load kat_mem t"
    by (auto simp: kat_mem_loads kat_gcm_seal)
  have "24 \<le> brk kat_mem"
    using kat_mem_allocated(1) by (simp add: allocated_slice_at)
  then have "load h1 (slice_at 0 24) = kat_nonce"
    using fr[of "slice_at 0 24"] by (simp add: kat_mem_loads)
  moreover have "allocated h1 (slice_at 0 24)"
    using allocated_mono[OF kat_mem_allocated(1) b] .
  ultimately show ?thesis
    using s l ld a by blast
qed

text \<open>
  Manual-mode \<open>Open\<close> in a memory that holds the nonce and the sealed message of the
  test vector, into an empty \<open>dst\<close>; and the same with the last tag byte changed.
\<close>

lemma kat_open:
  assumes "load h n = kat_nonce" and "load h ct = kat_ciphertext"
    and "allocated h n" and "allocated h ct"
  shows "opened_bytes (xaes256gcmManual_Open ref_lib kat_instance h nil_slice n ct nil_slice)
           = Ret (Inr kat_plaintext)"
proof -
  have ln: "len n = 24" and lc: "len ct = 28"
    using arg_cong[OF assms(1), of length] arg_cong[OF assms(2), of length]
    by (simp_all add: kat_lengths)
  have k: "deriveKey kat_instance (take 12 (load h n)) = Ret kat_derived_key"
    by (simp add: assms(1) kat_deriveKey)
  have sz: "16 \<le> len ct" "len ct \<le> gcm_max_plaintext + 16"
    using small_plaintext by (simp_all add: lc)
  have m: "may_append nil_slice (len ct - 16) ct nil_slice"
    by (simp add: lc)
  have op: "ref_gcm_open (ref_aes kat_derived_key) (drop 12 kat_nonce) kat_ciphertext []
              = Some kat_plaintext"
    unfolding kat_gcm_seal[symmetric] by (rule ref_gcm_open_seal)
  from manual_Open_spec[OF kat_new ln sz allocated_nil assms(3,4) allocated_nil m k]
  have "\<exists>h1 ret. xaes256gcmManual_Open ref_lib kat_instance h nil_slice n ct nil_slice
                    = Ret (h1, Inr ret) \<and> load h1 ret = kat_plaintext"
    using op by (auto simp: assms(1,2) lc kat_lengths)
  then show ?thesis by auto
qed

lemma kat_tampered_open:
  "ref_gcm_open (ref_aes kat_derived_key) (drop 12 kat_nonce) kat_tampered [] = None"
proof -
  have "take 12 kat_tampered = [206, 84, 110, 246, 60, 156, 198, 7, 101, 146, 54, 9]"
    and "drop 12 kat_tampered
           = [179, 58, 154, 25, 116, 233, 110, 82, 218, 242, 252, 247, 7, 94, 34, 0x70]"
    and "length kat_tampered = 28"
    by (simp_all add: kat_tampered_def kat_ciphertext_def)
  then show ?thesis
    by (simp add: ref_gcm_open_def kat_gcm_tag)
qed

lemma kat_open_tampered:
  assumes "load h n = kat_nonce" and "load h ct = kat_tampered"
    and "allocated h n" and "allocated h ct"
  shows "opened_bytes (xaes256gcmManual_Open ref_lib kat_instance h nil_slice n ct nil_slice)
           = Ret (Inl cipher_errOpen)"
proof -
  have lt: "length kat_tampered = 28"
    by (simp add: kat_tampered_def kat_ciphertext_def)
  have ln: "len n = 24" and lc: "len ct = 28"
    using arg_cong[OF assms(1), of length] arg_cong[OF assms(2), of length]
    by (simp_all add: kat_lengths lt)
  have k: "deriveKey kat_instance (take 12 (load h n)) = Ret kat_derived_key"
    by (simp add: assms(1) kat_deriveKey)
  have sz: "16 \<le> len ct" "len ct \<le> gcm_max_plaintext + 16"
    using small_plaintext by (simp_all add: lc)
  have m: "may_append nil_slice (len ct - 16) ct nil_slice"
    by (simp add: lc)
  from manual_Open_spec[OF kat_new ln sz allocated_nil assms(3,4) allocated_nil m k]
  have "\<exists>h1. xaes256gcmManual_Open ref_lib kat_instance h nil_slice n ct nil_slice
                = Ret (h1, Inl cipher_errOpen)"
    using kat_tampered_open by (simp add: assms(1,2))
  then show ?thesis by auto
qed

text \<open>The first 12 bytes of the nonce sealed under the test vector's key and nonce.\<close>

lemma kat_inplace_gcm_ctr:
  "gcm_ctr (ref_aes kat_derived_key) (drop 12 kat_nonce) (take 12 kat_nonce) =
     [215, 87, 104, 225, 84, 232, 180, 121, 1, 159, 62, 8]"
proof -
  have "length (take 12 kat_nonce) = 12" by (simp add: kat_lengths)
  then have "gcm_ctr (ref_aes kat_derived_key) (drop 12 kat_nonce) (take 12 kat_nonce) =
               map2 (XOR) (take 12 kat_nonce)
                 (enc_block (ref_aes kat_derived_key) (drop 12 kat_nonce @ be_bytes 4 2))"
    by (simp add: gcm_ctr_def)
  then show ?thesis
    unfolding kat_key_stream by (simp add: kat_nonce_def)
qed

lemma kat_inplace_ghash_input:
  "ghash_input [] [215, 87, 104, 225, 84, 232, 180, 121, 1, 159, 62, 8] =
     [215, 87, 104, 225, 84, 232, 180, 121, 1, 159, 62, 8, 0, 0, 0, 0, 0, 0, 0, 0, 0,
      0, 0, 0, 0, 0, 0, 0, 0, 0, 0, 96]"
  by (simp add: ghash_input_def pad16_def be_bytes_numeral replicate_numeral)

lemma kat_inplace_ghash_block1:
  "gf_mul (be_nat [215, 87, 104, 225, 84, 232, 180, 121, 1, 159, 62, 8, 0, 0, 0, 0])
     169225541685480357578142419425738499593 = 145827004763624703589489294977204518729"
  by (simp add: be_nat_def gf_mul_def gf_mul_loop_numeral bit_Suc_0_iff)

lemma kat_inplace_ghash_block2:
  "gf_mul (145827004763624703589489294977204518729 XOR be_nat [0, 0, 0, 0, 0, 0, 0, 0, 0, 0, 0, 0, 0, 0, 0, 96])
     169225541685480357578142419425738499593 = 193872577693437223909885670620738930220"
  by (simp add: be_nat_def gf_mul_def gf_mul_loop_numeral bit_Suc_0_iff)

lemma kat_inplace_ghash:
  "ghash (be_nat [127, 79, 167, 96, 2, 37, 143, 193, 66, 52, 254, 47, 221, 42, 38, 9])
     [215, 87, 104, 225, 84, 232, 180, 121, 1, 159, 62, 8, 0, 0, 0, 0, 0, 0, 0, 0, 0,
      0, 0, 0, 0, 0, 0, 0, 0, 0, 0, 96]
   = 193872577693437223909885670620738930220"
proof -
  have h: "be_nat [127, 79, 167, 96, 2, 37, 143, 193, 66, 52, 254, 47, 221, 42, 38, 9] = 169225541685480357578142419425738499593"
    by (simp add: be_nat_def)
  have "blocks16 (32 div 16) [215, 87, 104, 225, 84, 232, 180, 121, 1, 159, 62, 8, 0, 0, 0, 0, 0, 0, 0, 0, 0,
      0, 0, 0, 0, 0, 0, 0, 0, 0, 0, 96]
        = [[215, 87, 104, 225, 84, 232, 180, 121, 1, 159, 62, 8, 0, 0, 0, 0], [0, 0, 0, 0, 0, 0, 0, 0, 0, 0, 0, 0, 0, 0, 0, 96]]"
    by (simp add: numeral_2_eq_2)
  then show ?thesis
    unfolding ghash_def h by (simp add: kat_inplace_ghash_block1 kat_inplace_ghash_block2)
qed

lemma kat_inplace_gcm_tag:
  "gcm_tag (ref_aes kat_derived_key) (drop 12 kat_nonce) []
     [215, 87, 104, 225, 84, 232, 180, 121, 1, 159, 62, 8] =
   [138, 241, 148, 252, 159, 118, 31, 111, 227, 193, 231, 91, 46, 147, 199, 91]"
  unfolding gcm_tag_def kat_hash_key kat_tag_mask kat_inplace_ghash_input kat_inplace_ghash
  by (simp add: be_bytes_numeral)

lemma kat_inplace_gcm_seal:
  "ref_gcm_seal (ref_aes kat_derived_key) (drop 12 kat_nonce) (take 12 kat_nonce) []
     = kat_inplace_ciphertext"
  unfolding ref_gcm_seal_def with_tag_def kat_inplace_gcm_ctr kat_inplace_gcm_tag
  by (simp add: kat_inplace_ciphertext_def)

text \<open>The sealed message of automatic mode in memory, whole and with the tag changed.\<close>

lemma kat_sealed_loads:
  "load kat_sealed_mem (slice_at 52 (Suc 0)) = [0]"
  "load kat_sealed_mem (slice_at 0 24) = kat_nonce"
  "load kat_sealed_mem (slice_at 24 28) = kat_ciphertext"
  "load kat_sealed_mem (reslice (slice_at 0 52) 0 24) = kat_nonce"
  "load kat_sealed_mem (reslice (slice_at 0 52) 24 (len (slice_at 0 52))) = kat_ciphertext"
  by (simp_all add: kat_sealed_mem_def load_mem_of kat_lengths)

lemma kat_sealed_allocated:
  "allocated kat_sealed_mem (slice_at 0 24)"
  "allocated kat_sealed_mem (slice_at 24 28)"
  "allocated kat_sealed_mem (reslice (slice_at 0 52) 0 24)"
  "allocated kat_sealed_mem (reslice (slice_at 0 52) 24 (len (slice_at 0 52)))"
  by (simp_all add: allocated_def slice_cap_def kat_sealed_mem_def kat_lengths)

lemma kat_tampered_length: "length kat_tampered = 28"
  by (simp add: kat_tampered_def kat_lengths)

lemma kat_tampered_loads:
  "load tampered_mem (reslice (slice_at 0 52) 0 24) = kat_nonce"
  "load tampered_mem (reslice (slice_at 0 52) 24 (len (slice_at 0 52))) = kat_tampered"
  by (simp_all add: tampered_mem_def load_mem_of kat_lengths kat_tampered_length)

lemma kat_tampered_allocated:
  "allocated tampered_mem (reslice (slice_at 0 52) 0 24)"
  "allocated tampered_mem (reslice (slice_at 0 52) 24 (len (slice_at 0 52)))"
  by (simp_all add: allocated_def slice_cap_def tampered_mem_def kat_lengths kat_tampered_length)

lemma kat_New: "New ref_lib kat_key = Ret (Inr kat_aead)"
  by (simp add: New_def kat_new kat_aead_def)

lemma kat_manual [simp]: "manual kat_aead = kat_instance"
  by (simp add: kat_aead_def)

lemma kat_rand_simps [simp]: "kat_rand NonceSize = Some kat_nonce" "no_rand NonceSize = None"
  by (simp_all add: kat_rand_def no_rand_def NonceSize_def)

text \<open>Automatic-mode \<open>Seal\<close> on the test vector, into an empty \<open>dst\<close>.\<close>

lemma kat_auto_seal:
  "\<exists>h1 out.
     xaes256gcm_Seal ref_lib kat_rand kat_aead kat_mem nil_slice nil_slice (slice_at 24 12)
       nil_slice = Ret (h1, out) \<and>
     len out = 52 \<and> load h1 out = kat_nonce @ kat_ciphertext"
proof -
  have inst: "newWithManualNonces ref_lib kat_key = Ret (Inr (manual kat_aead))"
    by (simp add: kat_new)
  have sz: "len (slice_at 24 12) \<le> gcm_max_plaintext"
    by (simp add: small_plaintext)
  have ap: "apart nil_slice (len (slice_at 24 12) + Overhead) (slice_at 24 12)"
    "apart nil_slice (len (slice_at 24 12) + Overhead) nil_slice"
    by (simp_all add: Overhead_def)
  from auto_Seal_spec[where rnd = kat_rand and r = kat_nonce, OF ref_gcm_seal_contract inst _
      _ kat_lengths(1) sz allocated_nil kat_mem_allocated(2) allocated_nil ap, of nil_slice]
  show ?thesis
    by (auto simp: kat_deriveKey kat_mem_loads kat_gcm_seal Overhead_def)
qed

text \<open>The same into a \<open>dst\<close> that holds three bytes and has room for the output.\<close>

lemma dst_mem_facts:
  "allocated dst_mem full_dst" "allocated dst_mem roomy_dst" "allocated dst_mem (slice_at 0 12)"
  "load dst_mem full_dst = [1, 2, 3]" "load dst_mem roomy_dst = [1, 2, 3]"
  "load dst_mem (slice_at 0 12) = kat_plaintext"
  by (simp_all add: allocated_def slice_cap_def dst_mem_def load_mem_of full_dst_def
      roomy_dst_def kat_lengths)

lemma roomy_apart:
  "apart roomy_dst (len (slice_at 0 12) + Overhead) (slice_at 0 12)"
  "apart roomy_dst (len (slice_at 0 12) + Overhead) nil_slice"
  "len roomy_dst + len (slice_at 0 12) + Overhead \<le> slice_cap roomy_dst"
  by (simp_all add: apart_def not_AnyOverlap_iff appended_def roomy_dst_def Overhead_def
      slice_cap_def)

lemma kat_auto_seal_roomy:
  "\<exists>h1 out.
     xaes256gcm_Seal ref_lib kat_rand kat_aead dst_mem roomy_dst nil_slice (slice_at 0 12)
       nil_slice = Ret (h1, out) \<and>
     len out = 55 \<and> load h1 out = [1, 2, 3] @ kat_nonce @ kat_ciphertext"
proof -
  have inst: "newWithManualNonces ref_lib kat_key = Ret (Inr (manual kat_aead))"
    by (simp add: kat_new)
  have sz: "len (slice_at 0 12) \<le> gcm_max_plaintext"
    by (simp add: small_plaintext)
  have l3: "len roomy_dst = 3"
    by (simp add: roomy_dst_def)
  from auto_Seal_spec[where rnd = kat_rand and r = kat_nonce, OF ref_gcm_seal_contract inst _
      _ kat_lengths(1) sz dst_mem_facts(2,3) allocated_nil roomy_apart(1,2), of nil_slice]
  show ?thesis
    by (auto simp: kat_deriveKey dst_mem_facts kat_gcm_seal Overhead_def l3)
qed

text \<open>
  The two calls that the library's GCM refuses: a plaintext one byte over the limit,
  and a \<open>dst\<close> that starts one byte into the plaintext.
\<close>

lemma huge_plaintext_len: "len huge_plaintext = 2 ^ 36 - 31"
  by (simp add: huge_plaintext_def gcm_max_plaintext_def)

lemma huge_mem_nonce: "load huge_mem (slice_at 0 24) = kat_nonce"
  by (simp add: huge_mem_def load_mem_of kat_lengths)

lemma kat_seal_huge:
  "xaes256gcmManual_Seal ref_lib kat_instance huge_mem nil_slice (slice_at 0 24) huge_plaintext
     nil_slice = Panic PanicGcmTooLarge"
proof -
  have k: "deriveKey kat_instance (take 12 (load huge_mem (slice_at 0 24))) = Ret kat_derived_key"
    by (simp add: huge_mem_nonce kat_deriveKey)
  show ?thesis
    unfolding manual_Seal_24[OF kat_new _ k, simplified]
    by (simp add: gcm_Seal_def huge_plaintext_def)
qed

lemma shifted_mem_nonce: "load shifted_mem (slice_at 0 24) = kat_nonce"
  by (simp add: shifted_mem_def load_mem_of kat_lengths)

lemma kat_seal_shifted:
  "xaes256gcmManual_Seal ref_lib kat_instance shifted_mem shifted_dst (slice_at 0 24)
     shifted_plaintext nil_slice = Panic PanicGcmOverlap"
proof -
  have k: "deriveKey kat_instance (take 12 (load shifted_mem (slice_at 0 24))) = Ret kat_derived_key"
    by (simp add: shifted_mem_nonce kat_deriveKey)
  have "sliceForAppend shifted_mem shifted_dst 28
          = (shifted_mem, reslice shifted_dst 0 (len shifted_dst + 28), appended shifted_dst 28)"
    by (rule sliceForAppend_place) (simp add: shifted_dst_def slice_cap_def)
  moreover have "InexactOverlap (appended shifted_dst 28) shifted_plaintext"
    by (simp add: InexactOverlap_def AnyOverlap_def appended_def shifted_dst_def
        shifted_plaintext_def)
  moreover have "len shifted_plaintext = 12" "12 \<le> gcm_max_plaintext"
    by (simp_all add: shifted_plaintext_def small_plaintext)
  ultimately show ?thesis
    unfolding manual_Seal_24[OF kat_new _ k, simplified]
    by (simp add: gcm_Seal_def)
qed

lemma kat_auto_seal_huge:
  "xaes256gcm_Seal ref_lib kat_rand kat_aead huge_mem nil_slice nil_slice huge_plaintext
     nil_slice = Panic PanicGcmTooLarge"
proof -
  from auto_Seal_stage[where rnd = kat_rand and r = kat_nonce and h = huge_mem
      and dst = nil_slice and nonce = nil_slice and lib = ref_lib and x = kat_aead
      and pt = huge_plaintext and ad = nil_slice]
  obtain h' dst' N where s: "xaes256gcm_Seal ref_lib kat_rand kat_aead huge_mem nil_slice
        nil_slice huge_plaintext nil_slice
        = xaes256gcmManual_Seal ref_lib kat_instance h' dst' N huge_plaintext nil_slice"
    and lN: "len N = 24" and ld: "load h' N = kat_nonce"
    by (auto simp: kat_lengths)
  have k: "deriveKey kat_instance (take 12 (load h' N)) = Ret kat_derived_key"
    by (simp add: ld kat_deriveKey)
  show ?thesis
    unfolding s manual_Seal_24[OF kat_new lN k]
    by (simp add: gcm_Seal_def huge_plaintext_def lN)
qed

text \<open>
  Automatic-mode \<open>Seal\<close> with \<open>plaintext[:0]\<close> as \<open>dst\<close>: the nonce is written over the
  plaintext before the plaintext is sealed.
\<close>

lemma kat_auto_seal_inplace:
  "sealed_bytes
     (xaes256gcm_Seal ref_lib kat_rand kat_aead inplace_mem inplace_dst nil_slice
        inplace_plaintext nil_slice)
     = Ret (kat_nonce @ kat_inplace_ciphertext)"
proof -
  let ?h = "store inplace_mem 0 kat_nonce"
  let ?d = "reslice inplace_dst 0 24"
  have cb: "copy_bytes (load inplace_mem ?d) kat_nonce = kat_nonce"
    by (simp add: copy_bytes_full kat_lengths)
  have s: "xaes256gcm_Seal ref_lib kat_rand kat_aead inplace_mem inplace_dst nil_slice
             inplace_plaintext nil_slice
           = xaes256gcmManual_Seal ref_lib kat_instance ?h ?d ?d inplace_plaintext nil_slice"
    using cb
    by (simp add: xaes256gcm_Seal_def Let_def slice_cap_def Overhead_def rand_Read_def
        inplace_dst_def inplace_plaintext_def NonceSize_def[symmetric])
       (simp add: NonceSize_def)
  have ld: "load ?h ?d = kat_nonce"
    by (simp add: load_store_inside kat_lengths inplace_dst_def)
  have lp: "load ?h inplace_plaintext = take 12 kat_nonce"
    by (simp add: load_store_inside kat_lengths inplace_plaintext_def)
  have k: "deriveKey kat_instance (take 12 (load ?h ?d)) = Ret kat_derived_key"
    by (simp add: ld kat_deriveKey)
  have sz: "len inplace_plaintext \<le> gcm_max_plaintext"
    by (simp add: inplace_plaintext_def small_plaintext)
  have a: "allocated ?h ?d" "allocated ?h inplace_plaintext"
    by (simp_all add: allocated_def slice_cap_def inplace_mem_def inplace_dst_def
        inplace_plaintext_def kat_lengths)
  have m: "may_append ?d (len inplace_plaintext + 16) inplace_plaintext nil_slice"
    by (simp add: may_append_def InexactOverlap_def AnyOverlap_def appended_def
        inplace_dst_def inplace_plaintext_def)
  from manual_Seal_spec[OF ref_gcm_seal_contract kat_new _ sz a(1) a(1) a(2) allocated_nil m k]
  have "\<exists>h1 ret. xaes256gcmManual_Seal ref_lib kat_instance ?h ?d ?d inplace_plaintext nil_slice
                     = Ret (h1, ret) \<and>
                   load h1 ret = kat_nonce @ kat_inplace_ciphertext"
    by (auto simp: ld lp kat_inplace_gcm_seal)
  then show ?thesis
    by (auto simp: s)
qed

section \<open>The claims\<close>

text \<open>
  C1, as the code has it. The claim promises the round trip for every plaintext. The
  library's GCM refuses a plaintext of more than \<open>2^36 - 32\<close> bytes, and a destination
  whose appended bytes overlap the plaintext without starting where it starts: the
  two calls further below panic. What holds: for every instance built from a 32-byte
  key, every 24-byte nonce, every plaintext of at most \<open>2^36 - 32\<close> bytes and every
  additional data, in buffers laid out as \<open>cipher.AEAD\<close> asks, manual-nonce \<open>Seal\<close>
  returns \<open>dst\<close> extended by the plaintext's length plus 16 bytes, and opening the
  appended bytes with the same instance and with a nonce and additional data of the same
  contents succeeds and appends exactly the plaintext, to any destination. The
  library's GCM is assumed to add a 16-byte tag and to open what it sealed.
\<close>

theorem manual_seal_open_roundtrip:
  assumes "gcm_seal_contract lib" and "gcm_open_contract lib"
    and "newWithManualNonces lib key = Ret (Inr x)"
    and "len nonce = NonceSize" and "len plaintext \<le> gcm_max_plaintext"
    and "allocated h dst" and "allocated h nonce" and "allocated h plaintext"
    and "allocated h ad"
    and "may_append dst (len plaintext + 16) plaintext ad"
  shows "\<exists>h1 sealed.
           xaes256gcmManual_Seal lib x h dst nonce plaintext ad = Ret (h1, sealed) \<and>
           len sealed = len dst + len plaintext + 16 \<and>
           take (len dst) (load h1 sealed) = load h dst \<and>
           (\<forall>dst2 nonce2 ad2.
              allocated h1 dst2 \<and> allocated h1 nonce2 \<and> allocated h1 ad2 \<and>
              load h1 nonce2 = load h nonce \<and> load h1 ad2 = load h ad \<and>
              may_append dst2 (len plaintext) (reslice sealed (len dst) (len sealed)) ad2 \<longrightarrow>
              opened_bytes
                (xaes256gcmManual_Open lib x h1 dst2 nonce2
                   (reslice sealed (len dst) (len sealed)) ad2)
                = Ret (Inr (load h1 dst2 @ load h plaintext)))"
proof -
  from assms(4) have n24: "len nonce = 24" by (simp add: NonceSize_def)
  from manual_key[OF assms(3) n24]
  obtain k where k: "deriveKey x (take 12 (load h nonce)) = Ret k" by blast
  let ?ct = "gcm_seal lib (aes_encrypt lib k) (drop 12 (load h nonce)) (load h plaintext) (load h ad)"
  from manual_Seal_spec[OF assms(1,3) n24 assms(5-10) k]
  obtain h1 sealed where seal: "xaes256gcmManual_Seal lib x h dst nonce plaintext ad = Ret (h1, sealed)"
    and ls: "len sealed = len dst + (len plaintext + 16)"
    and out: "load h1 sealed = load h dst @ ?ct"
    and lct: "length ?ct = len plaintext + 16"
    and as: "allocated h1 sealed"
    by blast
  let ?c = "reslice sealed (len dst) (len sealed)"
  have lc: "len ?c = len plaintext + 16" by (simp add: ls)
  have ldc: "load h1 ?c = ?ct"
    using lct by (simp add: load_reslice ls out)
  have ac: "allocated h1 ?c"
    using as ls by (simp add: allocated_def slice_cap_def)
  have op: "gcm_open lib (aes_encrypt lib k) (drop 12 (load h nonce)) ?ct (load h ad)
              = Some (load h plaintext)"
    using assms(2,5) n24 by (simp add: gcm_open_contract_def)
  have "opened_bytes (xaes256gcmManual_Open lib x h1 dst2 nonce2 ?c ad2)
          = Ret (Inr (load h1 dst2 @ load h plaintext))"
    if a: "allocated h1 dst2" "allocated h1 nonce2" "allocated h1 ad2"
      and l: "load h1 nonce2 = load h nonce" "load h1 ad2 = load h ad"
      and m: "may_append dst2 (len plaintext) ?c ad2"
    for dst2 nonce2 ad2
  proof -
    have n2: "len nonce2 = 24"
      using arg_cong[OF l(1), of length] n24 by simp
    have k2: "deriveKey x (take 12 (load h1 nonce2)) = Ret k"
      by (simp add: l k)
    have m2: "may_append dst2 (len ?c - 16) ?c ad2"
      using m by (simp add: ls)
    have sz: "16 \<le> len ?c" "len ?c \<le> gcm_max_plaintext + 16"
      using assms(5) by (simp_all add: ls)
    from manual_Open_spec[OF assms(3) n2 sz a(1,2) ac a(3) m2 k2]
    have "\<exists>h2 ret. xaes256gcmManual_Open lib x h1 dst2 nonce2 ?c ad2 = Ret (h2, Inr ret) \<and>
                    load h2 ret = load h1 dst2 @ load h plaintext"
      using op ldc by (auto simp: l ls)
    then show ?thesis by auto
  qed
  with seal ls out show ?thesis by simp
qed

theorem manual_seal_open_roundtrip_witness:
  "gcm_seal_contract ref_lib \<and> gcm_open_contract ref_lib \<and>
   newWithManualNonces ref_lib kat_key = Ret (Inr kat_instance) \<and>
   len (slice_at 0 24) = NonceSize \<and> len (slice_at 24 12) \<le> gcm_max_plaintext \<and>
   allocated kat_mem nil_slice \<and> allocated kat_mem (slice_at 0 24) \<and>
   allocated kat_mem (slice_at 24 12) \<and>
   may_append nil_slice (len (slice_at 24 12) + 16) (slice_at 24 12) nil_slice \<and>
   (\<exists>h1 sealed.
      xaes256gcmManual_Seal ref_lib kat_instance kat_mem nil_slice (slice_at 0 24)
        (slice_at 24 12) nil_slice = Ret (h1, sealed) \<and>
      load h1 sealed = kat_ciphertext \<and>
      allocated h1 nil_slice \<and> allocated h1 (slice_at 0 24) \<and>
      load h1 (slice_at 0 24) = load kat_mem (slice_at 0 24) \<and>
      load h1 nil_slice = load kat_mem nil_slice \<and>
      may_append nil_slice (len (slice_at 24 12)) sealed nil_slice \<and>
      opened_bytes
        (xaes256gcmManual_Open ref_lib kat_instance h1 nil_slice (slice_at 0 24) sealed nil_slice)
        = Ret (Inr kat_plaintext))"
proof -
  have n: "len (slice_at 0 24) = NonceSize"
    by (simp add: NonceSize_def)
  have sz: "len (slice_at 24 12) \<le> gcm_max_plaintext"
    by (simp add: small_plaintext)
  have m: "may_append nil_slice (len (slice_at 24 12) + 16) (slice_at 24 12) nil_slice"
    by simp
  from manual_seal_open_roundtrip[OF ref_gcm_seal_contract ref_gcm_open_contract kat_new n sz
      allocated_nil kat_mem_allocated allocated_nil m]
  obtain h1 sealed where s: "xaes256gcmManual_Seal ref_lib kat_instance kat_mem nil_slice
        (slice_at 0 24) (slice_at 24 12) nil_slice = Ret (h1, sealed)"
    and R: "\<forall>dst2 nonce2 ad2.
              allocated h1 dst2 \<and> allocated h1 nonce2 \<and> allocated h1 ad2 \<and>
              load h1 nonce2 = load kat_mem (slice_at 0 24) \<and>
              load h1 ad2 = load kat_mem nil_slice \<and>
              may_append dst2 (len (slice_at 24 12))
                (reslice sealed (len nil_slice) (len sealed)) ad2 \<longrightarrow>
              opened_bytes
                (xaes256gcmManual_Open ref_lib kat_instance h1 dst2 nonce2
                   (reslice sealed (len nil_slice) (len sealed)) ad2)
                = Ret (Inr (load h1 dst2 @ load kat_mem (slice_at 24 12)))"
    by blast
  from kat_seal s have ld: "load h1 sealed = kat_ciphertext"
    and a: "allocated h1 (slice_at 0 24)" and l: "load h1 (slice_at 0 24) = kat_nonce"
    by auto
  have m2: "may_append nil_slice (len (slice_at 24 12)) sealed nil_slice"
    by simp
  from R[rule_format, of nil_slice "slice_at 0 24" nil_slice] a l m2
  have "opened_bytes
          (xaes256gcmManual_Open ref_lib kat_instance h1 nil_slice (slice_at 0 24) sealed nil_slice)
          = Ret (Inr kat_plaintext)"
    by (simp add: kat_mem_loads reslice_whole)
  with s ld a l m2 have "\<exists>h1 sealed.
      xaes256gcmManual_Seal ref_lib kat_instance kat_mem nil_slice (slice_at 0 24)
        (slice_at 24 12) nil_slice = Ret (h1, sealed) \<and>
      load h1 sealed = kat_ciphertext \<and>
      allocated h1 nil_slice \<and> allocated h1 (slice_at 0 24) \<and>
      load h1 (slice_at 0 24) = load kat_mem (slice_at 0 24) \<and>
      load h1 nil_slice = load kat_mem nil_slice \<and>
      may_append nil_slice (len (slice_at 24 12)) sealed nil_slice \<and>
      opened_bytes
        (xaes256gcmManual_Open ref_lib kat_instance h1 nil_slice (slice_at 0 24) sealed nil_slice)
        = Ret (Inr kat_plaintext)"
    by (simp add: kat_mem_loads)
  with ref_gcm_seal_contract ref_gcm_open_contract kat_new n sz kat_mem_allocated m
  show ?thesis
    by simp
qed

text \<open>
  C1 as stated fails on the instance and the nonce of the test vector: with a plaintext
  of \<open>2^36 - 31\<close> bytes, and with a \<open>dst\<close> that starts one byte into the plaintext,
  \<open>Seal\<close> panics, so there is nothing to open.
\<close>

theorem manual_seal_refused_counterexample:
  "newWithManualNonces ref_lib kat_key = Ret (Inr kat_instance) \<and>
   len (slice_at 0 24) = NonceSize \<and>
   len huge_plaintext = 2 ^ 36 - 31 \<and>
   xaes256gcmManual_Seal ref_lib kat_instance huge_mem nil_slice (slice_at 0 24) huge_plaintext
     nil_slice = Panic PanicGcmTooLarge \<and>
   xaes256gcmManual_Seal ref_lib kat_instance shifted_mem shifted_dst (slice_at 0 24)
     shifted_plaintext nil_slice = Panic PanicGcmOverlap"
  using huge_plaintext_len
  by (simp add: kat_new NonceSize_def kat_seal_huge kat_seal_shifted)

text \<open>
  C2. For every instance and every 12-byte nonce prefix \<open>N1\<close>, \<open>deriveKey\<close> returns the
  AES-256 encryption under the master key of \<open>(00 01 'X' 00 || N1) XOR K1\<close> followed by
  that of \<open>(00 02 'X' 00 || N1) XOR K1\<close>, 32 bytes in all. AES is assumed to map a
  16-byte block to a 16-byte block.
\<close>

theorem deriveKey_two_blocks:
  assumes "aes_contract lib"
    and "newWithManualNonces lib key = Ret (Inr x)"
    and "length n1 = 12"
  shows "deriveKey x n1 =
           Ret (aes_encrypt lib key (map2 (XOR) ([0x00, 0x01, 0x58, 0x00] @ n1) (k1 x))
              @ aes_encrypt lib key (map2 (XOR) ([0x00, 0x02, 0x58, 0x00] @ n1) (k1 x))) \<and>
         length (aes_encrypt lib key (map2 (XOR) ([0x00, 0x01, 0x58, 0x00] @ n1) (k1 x))
              @ aes_encrypt lib key (map2 (XOR) ([0x00, 0x02, 0x58, 0x00] @ n1) (k1 x))) = 32"
proof -
  have lk: "length (k1 x) = 16" and key: "length key = 32"
    using newWithManualNonces_Inr[OF assms(2)] by simp_all
  have len: "length (map2 (XOR) ([0, 1, 0x58, 0] @ n1) (k1 x)) = 16"
    "length (map2 (XOR) ([0, 2, 0x58, 0] @ n1) (k1 x)) = 16"
    using lk assms(3) by simp_all
  have enc: "length (aes_encrypt lib key (map2 (XOR) ([0, 1, 0x58, 0] @ n1) (k1 x))) = 16"
    "length (aes_encrypt lib key (map2 (XOR) ([0, 2, 0x58, 0] @ n1) (k1 x))) = 16"
    using assms(1) key len by (simp_all add: aes_contract_def)
  show ?thesis
    using enc len by (simp add: deriveKey_12[OF assms(2,3)] copy_bytes_full)
qed

theorem deriveKey_two_blocks_witness:
  "aes_contract ref_lib \<and>
   newWithManualNonces ref_lib kat_key = Ret (Inr kat_instance) \<and>
   length (take 12 kat_nonce) = 12 \<and>
   deriveKey kat_instance (take 12 kat_nonce) = Ret kat_derived_key \<and>
   aes_encrypt ref_lib kat_key
       (map2 (XOR) ([0x00, 0x01, 0x58, 0x00] @ take 12 kat_nonce) (k1 kat_instance))
     @ aes_encrypt ref_lib kat_key
         (map2 (XOR) ([0x00, 0x02, 0x58, 0x00] @ take 12 kat_nonce) (k1 kat_instance))
     = kat_derived_key \<and>
   length kat_derived_key = 32"
proof -
  have l: "length (take 12 kat_nonce) = 12"
    by (simp add: kat_nonce_length)
  from deriveKey_two_blocks[OF ref_aes_contract kat_new l] kat_deriveKey
  have "aes_encrypt ref_lib kat_key
          (map2 (XOR) ([0x00, 0x01, 0x58, 0x00] @ take 12 kat_nonce) (k1 kat_instance))
        @ aes_encrypt ref_lib kat_key
            (map2 (XOR) ([0x00, 0x02, 0x58, 0x00] @ take 12 kat_nonce) (k1 kat_instance))
        = kat_derived_key"
    by simp
  with ref_aes_contract kat_new l kat_deriveKey kat_derived_key_length show ?thesis
    by (intro conjI)
qed

text \<open>
  C3. For every 32-byte master key, construction sets \<open>K1\<close> to the double in \<open>GF(2^128)\<close>
  of the AES-256 encryption of the all-zero block: read as big-endian 128-bit values,
  \<open>K1\<close> is that block shifted left by one bit, XORed with \<open>0x87\<close> (which touches the last
  byte only) exactly when the block's most significant bit was 1. AES is assumed to
  map a 16-byte block to a 16-byte block.
\<close>

theorem subkey_is_doubled_encryption_of_zero:
  assumes "aes_contract lib" and "newWithManualNonces lib key = Ret (Inr x)"
  shows "length (k1 x) = 16 \<and>
         be_word (k1 x) = gf128_double (be_word (aes_encrypt lib key (replicate 16 0)))"
proof -
  have key: "length key = 32"
    and k: "k1 x = shift_xor (copy_bytes (replicate 16 0) (aes_encrypt lib key (replicate 16 0)))"
    and lk: "length (k1 x) = 16"
    using newWithManualNonces_Inr[OF assms(2)] by simp_all
  have l: "length (aes_encrypt lib key (replicate 16 0)) = 16"
    using assms(1) key by (simp add: aes_contract_def)
  then have "k1 x = shift_xor (aes_encrypt lib key (replicate 16 0))"
    by (simp add: k copy_bytes_full)
  with lk l show ?thesis
    by (simp add: shift_xor_double)
qed

theorem subkey_is_doubled_encryption_of_zero_witness:
  "aes_contract ref_lib \<and>
   newWithManualNonces ref_lib kat_key = Ret (Inr kat_instance) \<and>
   k1 kat_instance = kat_k1 \<and> length kat_k1 = 16 \<and>
   be_word kat_k1 = gf128_double (be_word (aes_encrypt ref_lib kat_key (replicate 16 0)))"
proof -
  have k: "k1 kat_instance = kat_k1"
    by (simp add: kat_instance_def)
  from subkey_is_doubled_encryption_of_zero[OF ref_aes_contract kat_new]
  have "length kat_k1 = 16"
    and "be_word kat_k1
           = gf128_double (be_word (aes_encrypt ref_lib kat_key (replicate 16 0)))"
    unfolding k by simp_all
  with ref_aes_contract kat_new k show ?thesis
    by (intro conjI)
qed

text \<open>
  C4, as the code has it. The claim says that automatic-mode \<open>Open\<close> with a non-empty
  nonce fails with the generic authentication failure. The code returns its own
  bad-nonce-length error there, the one manual-mode \<open>Open\<close> returns, and not \<open>errOpen\<close>:
  the claim fails at the one-byte nonce below. What holds: for every automatic-mode
  instance, \<open>Open\<close> with a non-empty nonce returns the recoverable bad-nonce-length error,
  which is not the authentication failure, and no plaintext, and leaves the memory as
  it was.
\<close>

theorem auto_open_nonempty_nonce:
  "len nonce \<noteq> 0 \<Longrightarrow>
   xaes256gcm_Open lib x h dst nonce ciphertext ad = Ret (h, Inl ErrBadNonceLength) \<and>
   opened_bytes (xaes256gcm_Open lib x h dst nonce ciphertext ad) \<noteq> Ret (Inl errOpen)"
  by (simp add: xaes256gcm_Open_def)

theorem auto_open_nonempty_nonce_witness:
  "len (slice_at 52 1) \<noteq> 0 \<and>
   load kat_sealed_mem (slice_at 52 1) = [0] \<and>
   xaes256gcm_Open ref_lib kat_aead kat_sealed_mem nil_slice (slice_at 52 1) (slice_at 0 52)
     nil_slice = Ret (kat_sealed_mem, Inl ErrBadNonceLength) \<and>
   opened_bytes
     (xaes256gcm_Open ref_lib kat_aead kat_sealed_mem nil_slice (slice_at 52 1) (slice_at 0 52)
        nil_slice)
     \<noteq> Ret (Inl errOpen)"
  using auto_open_nonempty_nonce[where nonce = "slice_at 52 1" and lib = ref_lib
      and x = kat_aead and h = kat_sealed_mem and dst = nil_slice
      and ciphertext = "slice_at 0 52" and ad = nil_slice]
  by (simp add: kat_sealed_loads)

text \<open>
  C4 as stated fails on the instance of the test vector with the one-byte nonce \<open>00\<close>:
  the result is not the authentication failure.
\<close>

theorem auto_open_nonce_error_counterexample:
  "New ref_lib kat_key = Ret (Inr kat_aead) \<and>
   load kat_sealed_mem (slice_at 52 1) = [0] \<and>
   opened_bytes
     (xaes256gcm_Open ref_lib kat_aead kat_sealed_mem nil_slice (slice_at 52 1) (slice_at 0 52)
        nil_slice)
     \<noteq> Ret (Inl errOpen)"
  by (simp add: kat_New kat_sealed_loads xaes256gcm_Open_def)

text \<open>
  C5. \<open>New\<close> and \<open>NewWithManualNonces\<close> return the bad-key-length error, and no instance,
  for every key whose length is not 32 (so for lengths 0, 16, 31 and 33), and return an
  instance for every 32-byte key.
\<close>

theorem construction_checks_key_length:
  "(length key \<noteq> KeySize \<longrightarrow>
      New lib key = Ret (Inl ErrBadKeyLength) \<and>
      NewWithManualNonces lib key = Ret (Inl ErrBadKeyLength)) \<and>
   (length key = KeySize \<longrightarrow>
      (\<exists>x. New lib key = Ret (Inr x)) \<and> (\<exists>x. NewWithManualNonces lib key = Ret (Inr x)))"
  by (simp add: KeySize_def New_def NewWithManualNonces_def newWithManualNonces_32
      newWithManualNonces_bad)

theorem construction_checks_key_length_witness:
  "New ref_lib [] = Ret (Inl ErrBadKeyLength) \<and>
   NewWithManualNonces ref_lib [] = Ret (Inl ErrBadKeyLength) \<and>
   New ref_lib (replicate 16 0) = Ret (Inl ErrBadKeyLength) \<and>
   NewWithManualNonces ref_lib (replicate 16 0) = Ret (Inl ErrBadKeyLength) \<and>
   New ref_lib (replicate 31 0) = Ret (Inl ErrBadKeyLength) \<and>
   NewWithManualNonces ref_lib (replicate 31 0) = Ret (Inl ErrBadKeyLength) \<and>
   New ref_lib (replicate 33 0) = Ret (Inl ErrBadKeyLength) \<and>
   NewWithManualNonces ref_lib (replicate 33 0) = Ret (Inl ErrBadKeyLength) \<and>
   length kat_key = KeySize \<and>
   (\<exists>x. New ref_lib kat_key = Ret (Inr x)) \<and>
   (\<exists>x. NewWithManualNonces ref_lib kat_key = Ret (Inr x))"
  using construction_checks_key_length[where key = "[]" and lib = ref_lib]
    construction_checks_key_length[where key = "replicate 16 0" and lib = ref_lib]
    construction_checks_key_length[where key = "replicate 31 0" and lib = ref_lib]
    construction_checks_key_length[where key = "replicate 33 0" and lib = ref_lib]
    construction_checks_key_length[where key = kat_key and lib = ref_lib]
  by (simp add: KeySize_def kat_key_length)

text \<open>
  C6. For every nonce whose length is not 24, manual-nonce \<open>Seal\<close> panics with the
  bad-nonce-length message and manual-nonce \<open>Open\<close> returns the bad-nonce-length error
  without panicking and without touching the memory. For a 24-byte nonce neither fails
  on the nonce's length: \<open>Seal\<close> does not panic with that message nor with the
  library's for a GCM nonce, and \<open>Open\<close> does neither and does not return the
  bad-nonce-length error; and \<open>Seal\<close> returns when the plaintext is within GCM's limit
  and the buffers are laid out as \<open>cipher.AEAD\<close> asks.
\<close>

theorem manual_nonce_length:
  assumes "newWithManualNonces lib key = Ret (Inr x)"
  shows "(len nonce \<noteq> NonceSize \<longrightarrow>
            xaes256gcmManual_Seal lib x h dst nonce plaintext ad = Panic PanicBadNonceLength \<and>
            xaes256gcmManual_Open lib x h dst nonce ciphertext ad
              = Ret (h, Inl ErrBadNonceLength)) \<and>
         (len nonce = NonceSize \<longrightarrow>
            xaes256gcmManual_Seal lib x h dst nonce plaintext ad \<noteq> Panic PanicBadNonceLength \<and>
            xaes256gcmManual_Seal lib x h dst nonce plaintext ad \<noteq> Panic PanicGcmNonce \<and>
            xaes256gcmManual_Open lib x h dst nonce ciphertext ad \<noteq> Panic PanicBadNonceLength \<and>
            xaes256gcmManual_Open lib x h dst nonce ciphertext ad \<noteq> Panic PanicGcmNonce \<and>
            opened_bytes (xaes256gcmManual_Open lib x h dst nonce ciphertext ad)
              \<noteq> Ret (Inl ErrBadNonceLength)) \<and>
         (len nonce = NonceSize \<and> len plaintext \<le> gcm_max_plaintext \<and>
          allocated h dst \<and> allocated h plaintext \<and> allocated h ad \<and>
          may_append dst (len plaintext + 16) plaintext ad \<longrightarrow>
            (\<exists>h1 out. xaes256gcmManual_Seal lib x h dst nonce plaintext ad = Ret (h1, out)))"
proof (intro conjI impI)
  assume "len nonce \<noteq> NonceSize"
  then show "xaes256gcmManual_Seal lib x h dst nonce plaintext ad = Panic PanicBadNonceLength"
    and "xaes256gcmManual_Open lib x h dst nonce ciphertext ad = Ret (h, Inl ErrBadNonceLength)"
    by (simp_all add: xaes256gcmManual_Seal_def xaes256gcmManual_Open_def)
next
  assume n: "len nonce = NonceSize"
  then have n24: "len nonce = 24" by (simp add: NonceSize_def)
  from manual_key[OF assms n24]
  obtain k where k: "deriveKey x (take 12 (load h nonce)) = Ret k" by blast
  note S = manual_Seal_24[OF assms n24 k] and P = manual_Open_24[OF assms n24 k]
  show "xaes256gcmManual_Seal lib x h dst nonce plaintext ad \<noteq> Panic PanicBadNonceLength"
    and "xaes256gcmManual_Seal lib x h dst nonce plaintext ad \<noteq> Panic PanicGcmNonce"
    unfolding S using n24 by (auto dest!: gcm_Seal_panic)
  show "xaes256gcmManual_Open lib x h dst nonce ciphertext ad \<noteq> Panic PanicBadNonceLength"
    and "xaes256gcmManual_Open lib x h dst nonce ciphertext ad \<noteq> Panic PanicGcmNonce"
    unfolding P using n24 by (auto dest!: gcm_Open_panic)
  show "opened_bytes (xaes256gcmManual_Open lib x h dst nonce ciphertext ad)
          \<noteq> Ret (Inl ErrBadNonceLength)"
  proof
    assume "opened_bytes (xaes256gcmManual_Open lib x h dst nonce ciphertext ad)
              = Ret (Inl ErrBadNonceLength)"
    then obtain h1 where "xaes256gcmManual_Open lib x h dst nonce ciphertext ad
              = Ret (h1, Inl ErrBadNonceLength)"
      by (cases "xaes256gcmManual_Open lib x h dst nonce ciphertext ad" rule: opened_bytes.cases)
         auto
    from manual_Open_error[OF this] n show False by simp
  qed
next
  assume a: "len nonce = NonceSize \<and> len plaintext \<le> gcm_max_plaintext \<and>
          allocated h dst \<and> allocated h plaintext \<and> allocated h ad \<and>
          may_append dst (len plaintext + 16) plaintext ad"
  then have n24: "len nonce = 24" by (simp add: NonceSize_def)
  from manual_key[OF assms n24]
  obtain k where k: "deriveKey x (take 12 (load h nonce)) = Ret k" by blast
  let ?g = "\<lparr>cipher = aes_Block lib k, nonceSize = 12, tagSize = 16\<rparr>"
  from gcm_Seal_returns[of "reslice nonce 12 (len nonce)" ?g plaintext h dst ad lib] a n24
  have "\<exists>r. gcm_Seal lib ?g h dst (reslice nonce 12 (len nonce)) plaintext ad = Ret r"
    by (simp add: NonceSize_def)
  then show "\<exists>h1 out. xaes256gcmManual_Seal lib x h dst nonce plaintext ad = Ret (h1, out)"
    by (simp add: manual_Seal_24[OF assms n24 k])
qed

theorem manual_nonce_length_witness:
  "newWithManualNonces ref_lib kat_key = Ret (Inr kat_instance) \<and>
   xaes256gcmManual_Seal ref_lib kat_instance kat_mem nil_slice (slice_at 0 0) (slice_at 24 12)
     nil_slice = Panic PanicBadNonceLength \<and>
   xaes256gcmManual_Seal ref_lib kat_instance kat_mem nil_slice (slice_at 0 12) (slice_at 24 12)
     nil_slice = Panic PanicBadNonceLength \<and>
   xaes256gcmManual_Seal ref_lib kat_instance kat_mem nil_slice (slice_at 0 23) (slice_at 24 12)
     nil_slice = Panic PanicBadNonceLength \<and>
   xaes256gcmManual_Seal ref_lib kat_instance kat_mem nil_slice (slice_at 0 25) (slice_at 24 12)
     nil_slice = Panic PanicBadNonceLength \<and>
   xaes256gcmManual_Seal ref_lib kat_instance kat_mem nil_slice (slice_at 0 32) (slice_at 24 12)
     nil_slice = Panic PanicBadNonceLength \<and>
   xaes256gcmManual_Open ref_lib kat_instance kat_sealed_mem nil_slice (slice_at 0 0)
     (slice_at 24 28) nil_slice = Ret (kat_sealed_mem, Inl ErrBadNonceLength) \<and>
   xaes256gcmManual_Open ref_lib kat_instance kat_sealed_mem nil_slice (slice_at 0 23)
     (slice_at 24 28) nil_slice = Ret (kat_sealed_mem, Inl ErrBadNonceLength) \<and>
   xaes256gcmManual_Open ref_lib kat_instance kat_sealed_mem nil_slice (slice_at 0 32)
     (slice_at 24 28) nil_slice = Ret (kat_sealed_mem, Inl ErrBadNonceLength) \<and>
   len (slice_at 0 24) = NonceSize \<and> len (slice_at 24 12) \<le> gcm_max_plaintext \<and>
   allocated kat_mem nil_slice \<and> allocated kat_mem (slice_at 24 12) \<and>
   may_append nil_slice (len (slice_at 24 12) + 16) (slice_at 24 12) nil_slice \<and>
   xaes256gcmManual_Seal ref_lib kat_instance kat_mem nil_slice (slice_at 0 24) (slice_at 24 12)
     nil_slice \<noteq> Panic PanicBadNonceLength \<and>
   xaes256gcmManual_Seal ref_lib kat_instance kat_mem nil_slice (slice_at 0 24) (slice_at 24 12)
     nil_slice \<noteq> Panic PanicGcmNonce \<and>
   sealed_bytes
     (xaes256gcmManual_Seal ref_lib kat_instance kat_mem nil_slice (slice_at 0 24)
        (slice_at 24 12) nil_slice) = Ret kat_ciphertext \<and>
   opened_bytes
     (xaes256gcmManual_Open ref_lib kat_instance kat_sealed_mem nil_slice (slice_at 0 24)
        (slice_at 24 28) nil_slice) \<noteq> Ret (Inl ErrBadNonceLength) \<and>
   opened_bytes
     (xaes256gcmManual_Open ref_lib kat_instance kat_sealed_mem nil_slice (slice_at 0 24)
        (slice_at 24 28) nil_slice) = Ret (Inr kat_plaintext)"
proof -
  note S = manual_nonce_length[OF kat_new, where h = kat_mem and dst = nil_slice
      and plaintext = "slice_at 24 12" and ad = nil_slice and ciphertext = nil_slice]
  note P = manual_nonce_length[OF kat_new, where h = kat_sealed_mem and dst = nil_slice
      and plaintext = nil_slice and ad = nil_slice and ciphertext = "slice_at 24 28"]
  have sz: "len (slice_at 24 12) \<le> gcm_max_plaintext"
    by (simp add: small_plaintext)
  have a: "xaes256gcmManual_Seal ref_lib kat_instance kat_mem nil_slice (slice_at 0 24)
             (slice_at 24 12) nil_slice \<noteq> Panic PanicBadNonceLength"
    "xaes256gcmManual_Seal ref_lib kat_instance kat_mem nil_slice (slice_at 0 24)
             (slice_at 24 12) nil_slice \<noteq> Panic PanicGcmNonce"
    "\<exists>h1 out. xaes256gcmManual_Seal ref_lib kat_instance kat_mem nil_slice (slice_at 0 24)
             (slice_at 24 12) nil_slice = Ret (h1, out)"
    using S[where nonce = "slice_at 0 24"] sz kat_mem_allocated
    by (simp_all add: NonceSize_def)
  have b: "sealed_bytes
     (xaes256gcmManual_Seal ref_lib kat_instance kat_mem nil_slice (slice_at 0 24)
        (slice_at 24 12) nil_slice) = Ret kat_ciphertext"
    using kat_seal a(3) by auto
  have c: "opened_bytes
     (xaes256gcmManual_Open ref_lib kat_instance kat_sealed_mem nil_slice (slice_at 0 24)
        (slice_at 24 28) nil_slice) \<noteq> Ret (Inl ErrBadNonceLength)"
    using P[where nonce = "slice_at 0 24"] by (simp add: NonceSize_def)
  have d: "opened_bytes
     (xaes256gcmManual_Open ref_lib kat_instance kat_sealed_mem nil_slice (slice_at 0 24)
        (slice_at 24 28) nil_slice) = Ret (Inr kat_plaintext)"
    by (rule kat_open) (simp_all add: kat_sealed_loads kat_sealed_allocated)
  from S[where nonce = "slice_at 0 0"] S[where nonce = "slice_at 0 12"]
    S[where nonce = "slice_at 0 23"] S[where nonce = "slice_at 0 25"]
    S[where nonce = "slice_at 0 32"] P[where nonce = "slice_at 0 0"]
    P[where nonce = "slice_at 0 23"] P[where nonce = "slice_at 0 32"]
    kat_new a(1,2) b c d sz kat_mem_allocated(2)
  show ?thesis
    by (simp add: NonceSize_def)
qed

text \<open>
  C7, as the code has it. The claim promises the layout for every plaintext. Automatic
  \<open>Seal\<close> hands the plaintext to the library's GCM, which refuses more than \<open>2^36 - 32\<close>
  bytes; and it writes the nonce behind the elements of \<open>dst\<close> before it reads the
  plaintext, so a plaintext lying there is overwritten first. Both calls are further
  below. What holds: for every plaintext of at most \<open>2^36 - 32\<close> bytes and every
  additional data that do not overlap the bytes appended to \<open>dst\<close>, automatic-mode \<open>Seal\<close>
  with an empty nonce and a random source that delivers 24 bytes returns \<open>dst\<close> followed
  by those 24 bytes followed by what manual-mode \<open>Seal\<close> produces for them as nonce, the
  length growing by the plaintext's length plus 40, and leaves plaintext and additional
  data as they were; it panics on a non-empty nonce and when the random source fails.
  Nothing is said here of a plaintext that overlaps the appended bytes. The library's
  GCM is assumed to add a 16-byte tag.
\<close>

theorem auto_seal_layout:
  assumes "gcm_seal_contract lib" and "New lib key = Ret (Inr x)"
  shows "(len nonce \<noteq> 0 \<longrightarrow>
            xaes256gcm_Seal lib rnd x h dst nonce plaintext ad = Panic PanicBadNonceLength) \<and>
         (len nonce = 0 \<and> rnd NonceSize = None \<longrightarrow>
            xaes256gcm_Seal lib rnd x h dst nonce plaintext ad = Panic PanicRand) \<and>
         (\<forall>r. len nonce = 0 \<and> rnd NonceSize = Some r \<and> length r = NonceSize \<and>
              len plaintext \<le> gcm_max_plaintext \<and>
              allocated h dst \<and> allocated h plaintext \<and> allocated h ad \<and>
              apart dst (len plaintext + Overhead) plaintext \<and>
              apart dst (len plaintext + Overhead) ad \<longrightarrow>
            (\<exists>h1 out h2 sealed.
               xaes256gcm_Seal lib rnd x h dst nonce plaintext ad = Ret (h1, out) \<and>
               len out = len dst + len plaintext + Overhead \<and>
               load h1 plaintext = load h plaintext \<and> load h1 ad = load h ad \<and>
               xaes256gcmManual_Seal lib (manual x) h1 nil_slice
                   (reslice out (len dst) (len dst + NonceSize)) plaintext ad
                 = Ret (h2, sealed) \<and>
               load h1 out = load h dst @ r @ load h2 sealed))"
proof (intro conjI impI allI)
  assume "len nonce \<noteq> 0"
  then show "xaes256gcm_Seal lib rnd x h dst nonce plaintext ad = Panic PanicBadNonceLength"
    by (simp add: xaes256gcm_Seal_def)
next
  assume "len nonce = 0 \<and> rnd NonceSize = None"
  then show "xaes256gcm_Seal lib rnd x h dst nonce plaintext ad = Panic PanicRand"
    by (simp add: auto_Seal_no_rand)
next
  fix r
  assume a: "len nonce = 0 \<and> rnd NonceSize = Some r \<and> length r = NonceSize \<and>
              len plaintext \<le> gcm_max_plaintext \<and>
              allocated h dst \<and> allocated h plaintext \<and> allocated h ad \<and>
              apart dst (len plaintext + Overhead) plaintext \<and>
              apart dst (len plaintext + Overhead) ad"
  note inst = New_Inr[OF assms(2)]
  let ?n = "len plaintext + 16"
  from a have n0: "len nonce = 0" and rnd: "rnd NonceSize = Some r" and lr: "length r = 24"
    and sz: "len plaintext \<le> gcm_max_plaintext"
    and al: "allocated h dst" "allocated h plaintext" "allocated h ad"
    and ap: "apart dst (len plaintext + Overhead) plaintext"
      "apart dst (len plaintext + Overhead) ad"
    by (simp_all add: NonceSize_def)
  from auto_Seal_spec[where rnd = rnd and r = r, OF assms(1) inst n0 rnd lr sz al ap]
  obtain h1 out k where k: "deriveKey (manual x) (take 12 r) = Ret k"
    and s1: "xaes256gcm_Seal lib rnd x h dst nonce plaintext ad = Ret (h1, out)"
    and lo: "len out = len dst + len plaintext + Overhead"
    and ldo: "load h1 out = load h dst @ r
                @ gcm_seal lib (aes_encrypt lib k) (drop 12 r) (load h plaintext) (load h ad)"
    and ao: "allocated h1 out" and bk: "brk h \<le> brk h1"
    and keep1: "load h1 plaintext = load h plaintext" "load h1 ad = load h ad"
    by blast
  let ?M = "reslice out (len dst) (len dst + NonceSize)"
  have lM: "len ?M = 24" by (simp add: NonceSize_def)
  have ldM: "load h1 ?M = r"
    using lr by (simp add: load_reslice lo NonceSize_def Overhead_def ldo)
  have aM: "allocated h1 ?M"
    using ao by (simp add: allocated_def slice_cap_def lo NonceSize_def Overhead_def)
  have an: "allocated h1 nil_slice"
    by (simp add: allocated_def nil_slice_def slice_cap_def)
  have al1: "allocated h1 plaintext" "allocated h1 ad"
    using al bk by (simp_all add: allocated_mono)
  have mn: "may_append nil_slice ?n plaintext ad"
    by (simp add: may_append_def nil_slice_def slice_cap_def)
  have ln: "load h1 nil_slice = []"
    by (simp add: load_def nil_slice_def)
  from manual_Seal_spec[OF assms(1) inst lM sz an aM al1 mn, of k] k
  obtain h2 sealed where s2: "xaes256gcmManual_Seal lib (manual x) h1 nil_slice ?M plaintext ad
                               = Ret (h2, sealed)"
    and lds: "load h2 sealed
                = gcm_seal lib (aes_encrypt lib k) (drop 12 r) (load h plaintext) (load h ad)"
    by (auto simp: ldM keep1 ln)
  show "\<exists>h1 out h2 sealed.
          xaes256gcm_Seal lib rnd x h dst nonce plaintext ad = Ret (h1, out) \<and>
          len out = len dst + len plaintext + Overhead \<and>
          load h1 plaintext = load h plaintext \<and> load h1 ad = load h ad \<and>
          xaes256gcmManual_Seal lib (manual x) h1 nil_slice
              (reslice out (len dst) (len dst + NonceSize)) plaintext ad
            = Ret (h2, sealed) \<and>
          load h1 out = load h dst @ r @ load h2 sealed"
    using s1 lo keep1 s2 lds ldo by auto
qed

theorem auto_seal_layout_witness:
  "gcm_seal_contract ref_lib \<and>
   New ref_lib kat_key = Ret (Inr kat_aead) \<and>
   len (slice_at 0 1) \<noteq> 0 \<and>
   xaes256gcm_Seal ref_lib kat_rand kat_aead kat_mem nil_slice (slice_at 0 1) (slice_at 24 12)
     nil_slice = Panic PanicBadNonceLength \<and>
   len nil_slice = 0 \<and> no_rand NonceSize = None \<and>
   xaes256gcm_Seal ref_lib no_rand kat_aead kat_mem nil_slice nil_slice (slice_at 24 12)
     nil_slice = Panic PanicRand \<and>
   kat_rand NonceSize = Some kat_nonce \<and> length kat_nonce = NonceSize \<and>
   len (slice_at 24 12) \<le> gcm_max_plaintext \<and>
   allocated kat_mem nil_slice \<and> allocated kat_mem (slice_at 24 12) \<and>
   apart nil_slice (len (slice_at 24 12) + Overhead) (slice_at 24 12) \<and>
   apart nil_slice (len (slice_at 24 12) + Overhead) nil_slice \<and>
   (\<exists>h1 out h2 sealed.
      xaes256gcm_Seal ref_lib kat_rand kat_aead kat_mem nil_slice nil_slice (slice_at 24 12)
        nil_slice = Ret (h1, out) \<and>
      len out = 12 + 40 \<and>
      xaes256gcmManual_Seal ref_lib kat_instance h1 nil_slice (reslice out 0 24) (slice_at 24 12)
        nil_slice = Ret (h2, sealed) \<and>
      load h2 sealed = kat_ciphertext \<and>
      load h1 out = kat_nonce @ kat_ciphertext) \<and>
   len (slice_at 0 12) \<le> gcm_max_plaintext \<and>
   allocated dst_mem roomy_dst \<and> allocated dst_mem (slice_at 0 12) \<and>
   allocated dst_mem nil_slice \<and>
   apart roomy_dst (len (slice_at 0 12) + Overhead) (slice_at 0 12) \<and>
   apart roomy_dst (len (slice_at 0 12) + Overhead) nil_slice \<and>
   len roomy_dst + len (slice_at 0 12) + Overhead \<le> slice_cap roomy_dst \<and>
   (\<exists>h1 out h2 sealed.
      xaes256gcm_Seal ref_lib kat_rand kat_aead dst_mem roomy_dst nil_slice (slice_at 0 12)
        nil_slice = Ret (h1, out) \<and>
      len out = 3 + 12 + 40 \<and>
      xaes256gcmManual_Seal ref_lib kat_instance h1 nil_slice (reslice out 3 27) (slice_at 0 12)
        nil_slice = Ret (h2, sealed) \<and>
      load h2 sealed = kat_ciphertext \<and>
      load h1 out = [1, 2, 3] @ kat_nonce @ kat_ciphertext)"
proof -
  note T = auto_seal_layout[OF ref_gcm_seal_contract kat_New, where h = kat_mem
      and dst = nil_slice and plaintext = "slice_at 24 12" and ad = nil_slice]
  have a: "xaes256gcm_Seal ref_lib kat_rand kat_aead kat_mem nil_slice (slice_at 0 1)
             (slice_at 24 12) nil_slice = Panic PanicBadNonceLength"
    using T[where nonce = "slice_at 0 1" and rnd = kat_rand] by simp
  have b: "xaes256gcm_Seal ref_lib no_rand kat_aead kat_mem nil_slice nil_slice
             (slice_at 24 12) nil_slice = Panic PanicRand"
    using T[where nonce = nil_slice and rnd = no_rand] by simp
  have sz: "len (slice_at 24 12) \<le> gcm_max_plaintext"
    by (simp add: small_plaintext)
  have ap: "apart nil_slice (len (slice_at 24 12) + Overhead) (slice_at 24 12)"
    "apart nil_slice (len (slice_at 24 12) + Overhead) nil_slice"
    by (simp_all add: Overhead_def)
  have r: "length kat_nonce = NonceSize"
    by (simp add: kat_lengths NonceSize_def)
  note T3 = T[where nonce = nil_slice and rnd = kat_rand, THEN conjunct2, THEN conjunct2,
      rule_format, of kat_nonce]
  from T3 r sz ap kat_mem_allocated(2)
  obtain h1 out h2 sealed where s: "xaes256gcm_Seal ref_lib kat_rand kat_aead kat_mem nil_slice
        nil_slice (slice_at 24 12) nil_slice = Ret (h1, out)"
    and lo: "len out = 12 + 40"
    and m: "xaes256gcmManual_Seal ref_lib kat_instance h1 nil_slice (reslice out 0 24)
              (slice_at 24 12) nil_slice = Ret (h2, sealed)"
    and ld: "load h1 out = kat_nonce @ load h2 sealed"
    by (auto simp: NonceSize_def Overhead_def kat_rand_def)
  from kat_auto_seal s have "load h1 out = kat_nonce @ kat_ciphertext"
    by auto
  with ld have "load h2 sealed = kat_ciphertext" by simp
  with s lo m ld have c: "\<exists>h1 out h2 sealed.
      xaes256gcm_Seal ref_lib kat_rand kat_aead kat_mem nil_slice nil_slice (slice_at 24 12)
        nil_slice = Ret (h1, out) \<and>
      len out = 12 + 40 \<and>
      xaes256gcmManual_Seal ref_lib kat_instance h1 nil_slice (reslice out 0 24) (slice_at 24 12)
        nil_slice = Ret (h2, sealed) \<and>
      load h2 sealed = kat_ciphertext \<and>
      load h1 out = kat_nonce @ kat_ciphertext"
    by auto
  note U = auto_seal_layout[OF ref_gcm_seal_contract kat_New, where h = dst_mem
      and dst = roomy_dst and plaintext = "slice_at 0 12" and ad = nil_slice
      and nonce = nil_slice and rnd = kat_rand, THEN conjunct2, THEN conjunct2,
      rule_format, of kat_nonce]
  have sz2: "len (slice_at 0 12) \<le> gcm_max_plaintext"
    by (simp add: small_plaintext)
  have l3: "len roomy_dst = 3"
    by (simp add: roomy_dst_def)
  from U r sz2 roomy_apart dst_mem_facts(2,3)
  obtain g1 out2 g2 sealed2 where s2: "xaes256gcm_Seal ref_lib kat_rand kat_aead dst_mem roomy_dst
        nil_slice (slice_at 0 12) nil_slice = Ret (g1, out2)"
    and lo2: "len out2 = 3 + 12 + 40"
    and m2: "xaes256gcmManual_Seal ref_lib kat_instance g1 nil_slice (reslice out2 3 27)
              (slice_at 0 12) nil_slice = Ret (g2, sealed2)"
    and ld2: "load g1 out2 = [1, 2, 3] @ kat_nonce @ load g2 sealed2"
    by (auto simp: NonceSize_def Overhead_def kat_rand_def dst_mem_facts l3)
  from kat_auto_seal_roomy s2 have "load g1 out2 = [1, 2, 3] @ kat_nonce @ kat_ciphertext"
    by auto
  with ld2 have "load g2 sealed2 = kat_ciphertext" by simp
  with s2 lo2 m2 ld2 have d: "\<exists>h1 out h2 sealed.
      xaes256gcm_Seal ref_lib kat_rand kat_aead dst_mem roomy_dst nil_slice (slice_at 0 12)
        nil_slice = Ret (h1, out) \<and>
      len out = 3 + 12 + 40 \<and>
      xaes256gcmManual_Seal ref_lib kat_instance h1 nil_slice (reslice out 3 27) (slice_at 0 12)
        nil_slice = Ret (h2, sealed) \<and>
      load h2 sealed = kat_ciphertext \<and>
      load h1 out = [1, 2, 3] @ kat_nonce @ kat_ciphertext"
    by auto
  have e: "gcm_seal_contract ref_lib \<and>
   New ref_lib kat_key = Ret (Inr kat_aead) \<and>
   len (slice_at 0 1) \<noteq> 0 \<and>
   xaes256gcm_Seal ref_lib kat_rand kat_aead kat_mem nil_slice (slice_at 0 1) (slice_at 24 12)
     nil_slice = Panic PanicBadNonceLength \<and>
   len nil_slice = 0 \<and> no_rand NonceSize = None \<and>
   xaes256gcm_Seal ref_lib no_rand kat_aead kat_mem nil_slice nil_slice (slice_at 24 12)
     nil_slice = Panic PanicRand \<and>
   kat_rand NonceSize = Some kat_nonce \<and> length kat_nonce = NonceSize \<and>
   len (slice_at 24 12) \<le> gcm_max_plaintext \<and>
   allocated kat_mem nil_slice \<and> allocated kat_mem (slice_at 24 12) \<and>
   apart nil_slice (len (slice_at 24 12) + Overhead) (slice_at 24 12) \<and>
   apart nil_slice (len (slice_at 24 12) + Overhead) nil_slice"
    using ref_gcm_seal_contract kat_New a b r sz ap kat_mem_allocated(2) by simp
  have f: "len (slice_at 0 12) \<le> gcm_max_plaintext \<and>
   allocated dst_mem roomy_dst \<and> allocated dst_mem (slice_at 0 12) \<and>
   allocated dst_mem nil_slice \<and>
   apart roomy_dst (len (slice_at 0 12) + Overhead) (slice_at 0 12) \<and>
   apart roomy_dst (len (slice_at 0 12) + Overhead) nil_slice \<and>
   len roomy_dst + len (slice_at 0 12) + Overhead \<le> slice_cap roomy_dst"
    using sz2 roomy_apart dst_mem_facts(2,3) by simp
  from e c f d show ?thesis
    by (simp only: conj_assoc simp_thms)
qed

text \<open>
  C7 as stated fails on the instance of the test vector, with the random source that
  delivers its nonce. On a plaintext of \<open>2^36 - 31\<close> bytes \<open>Seal\<close> panics. With
  \<open>plaintext[:0]\<close> as \<open>dst\<close>, in an array with room for the output, \<open>Seal\<close> returns the
  nonce followed by the ciphertext of the nonce's first 12 bytes, which is not what
  manual-mode \<open>Seal\<close> produces for the plaintext and that nonce.
\<close>

theorem auto_seal_layout_counterexample:
  "New ref_lib kat_key = Ret (Inr kat_aead) \<and>
   len huge_plaintext = 2 ^ 36 - 31 \<and>
   xaes256gcm_Seal ref_lib kat_rand kat_aead huge_mem nil_slice nil_slice huge_plaintext
     nil_slice = Panic PanicGcmTooLarge \<and>
   load inplace_mem inplace_plaintext = kat_plaintext \<and>
   sealed_bytes
     (xaes256gcm_Seal ref_lib kat_rand kat_aead inplace_mem inplace_dst nil_slice
        inplace_plaintext nil_slice)
     = Ret (kat_nonce @ kat_inplace_ciphertext) \<and>
   sealed_bytes
     (xaes256gcmManual_Seal ref_lib kat_instance kat_mem nil_slice (slice_at 0 24)
        (slice_at 24 12) nil_slice)
     = Ret kat_ciphertext \<and>
   kat_inplace_ciphertext \<noteq> kat_ciphertext"
proof -
  have "load inplace_mem inplace_plaintext = kat_plaintext"
    by (simp add: inplace_mem_def inplace_plaintext_def load_mem_of kat_lengths)
  moreover have "sealed_bytes
     (xaes256gcmManual_Seal ref_lib kat_instance kat_mem nil_slice (slice_at 0 24)
        (slice_at 24 12) nil_slice)
     = Ret kat_ciphertext"
    using kat_seal by auto
  moreover have "kat_inplace_ciphertext \<noteq> kat_ciphertext"
    by (simp add: kat_inplace_ciphertext_def kat_ciphertext_def)
  ultimately show ?thesis
    using huge_plaintext_len
    by (simp add: kat_New kat_auto_seal_huge kat_auto_seal_inplace)
qed

text \<open>
  C8, as the code has it. The claim says that a ciphertext shorter than 24 bytes fails
  with the one uniform authentication failure and no error of its own. The code returns
  the package's \<open>errOpen\<close> there, \<open>"xaes256gcm: message authentication failed"\<close>, while a
  tag that does not match yields the library's \<open>"cipher: message authentication failed"\<close>:
  two errors, shown on the two calls further below. What holds: automatic-mode \<open>Open\<close>
  with an empty nonce returns \<open>errOpen\<close>, and leaves the memory as it was, on a ciphertext
  shorter than 24 bytes, and only then; otherwise its result is that of manual-mode
  \<open>Open\<close> with the first 24 bytes as nonce and the rest as ciphertext.
\<close>

theorem auto_open_empty_nonce:
  assumes "len nonce = 0"
  shows "(len ciphertext < NonceSize \<longrightarrow>
            xaes256gcm_Open lib x h dst nonce ciphertext ad = Ret (h, Inl errOpen)) \<and>
         (NonceSize \<le> len ciphertext \<longrightarrow>
            xaes256gcm_Open lib x h dst nonce ciphertext ad =
              xaes256gcmManual_Open lib (manual x) h dst
                (reslice ciphertext 0 24) (reslice ciphertext 24 (len ciphertext)) ad \<and>
            opened_bytes (xaes256gcm_Open lib x h dst nonce ciphertext ad) \<noteq> Ret (Inl errOpen))"
proof (intro conjI impI)
  assume "len ciphertext < NonceSize"
  with assms show "xaes256gcm_Open lib x h dst nonce ciphertext ad = Ret (h, Inl errOpen)"
    by (simp add: xaes256gcm_Open_def)
next
  assume l: "NonceSize \<le> len ciphertext"
  with assms show eq: "xaes256gcm_Open lib x h dst nonce ciphertext ad =
              xaes256gcmManual_Open lib (manual x) h dst
                (reslice ciphertext 0 24) (reslice ciphertext 24 (len ciphertext)) ad"
    by (simp add: xaes256gcm_Open_def NonceSize_def)
  show "opened_bytes (xaes256gcm_Open lib x h dst nonce ciphertext ad) \<noteq> Ret (Inl errOpen)"
  proof
    assume "opened_bytes (xaes256gcm_Open lib x h dst nonce ciphertext ad) = Ret (Inl errOpen)"
    then obtain h1 where "xaes256gcm_Open lib x h dst nonce ciphertext ad = Ret (h1, Inl errOpen)"
      by (cases "xaes256gcm_Open lib x h dst nonce ciphertext ad" rule: opened_bytes.cases) auto
    from manual_Open_error[OF this[unfolded eq]] show False by simp
  qed
qed

theorem auto_open_empty_nonce_witness:
  "len nil_slice = 0 \<and> len (slice_at 0 23) < NonceSize \<and>
   xaes256gcm_Open ref_lib kat_aead kat_sealed_mem nil_slice nil_slice (slice_at 0 23) nil_slice
     = Ret (kat_sealed_mem, Inl errOpen) \<and>
   NonceSize \<le> len (slice_at 0 52) \<and>
   xaes256gcm_Open ref_lib kat_aead kat_sealed_mem nil_slice nil_slice (slice_at 0 52) nil_slice
     = xaes256gcmManual_Open ref_lib kat_instance kat_sealed_mem nil_slice
         (reslice (slice_at 0 52) 0 24) (reslice (slice_at 0 52) 24 (len (slice_at 0 52)))
         nil_slice \<and>
   opened_bytes
     (xaes256gcm_Open ref_lib kat_aead kat_sealed_mem nil_slice nil_slice (slice_at 0 52)
        nil_slice) \<noteq> Ret (Inl errOpen) \<and>
   opened_bytes
     (xaes256gcm_Open ref_lib kat_aead kat_sealed_mem nil_slice nil_slice (slice_at 0 52)
        nil_slice) = Ret (Inr kat_plaintext)"
proof -
  note T = auto_open_empty_nonce[where nonce = nil_slice and lib = ref_lib and x = kat_aead
      and h = kat_sealed_mem and dst = nil_slice and ad = nil_slice]
  have a: "xaes256gcm_Open ref_lib kat_aead kat_sealed_mem nil_slice nil_slice (slice_at 0 23)
             nil_slice = Ret (kat_sealed_mem, Inl errOpen)"
    using T[where ciphertext = "slice_at 0 23"] by (simp add: NonceSize_def)
  have bc: "xaes256gcm_Open ref_lib kat_aead kat_sealed_mem nil_slice nil_slice (slice_at 0 52)
             nil_slice
           = xaes256gcmManual_Open ref_lib (manual kat_aead) kat_sealed_mem nil_slice
               (reslice (slice_at 0 52) 0 24) (reslice (slice_at 0 52) 24 (len (slice_at 0 52)))
               nil_slice \<and>
         opened_bytes
              (xaes256gcm_Open ref_lib kat_aead kat_sealed_mem nil_slice nil_slice (slice_at 0 52)
                 nil_slice) \<noteq> Ret (Inl errOpen)"
    by (rule T[where ciphertext = "slice_at 0 52", THEN conjunct2, rule_format])
       (simp_all add: NonceSize_def)
  from bc have b: "xaes256gcm_Open ref_lib kat_aead kat_sealed_mem nil_slice nil_slice (slice_at 0 52)
             nil_slice
           = xaes256gcmManual_Open ref_lib kat_instance kat_sealed_mem nil_slice
               (reslice (slice_at 0 52) 0 24) (reslice (slice_at 0 52) 24 (len (slice_at 0 52)))
               nil_slice"
    by (simp only: kat_manual)
  from bc have c: "opened_bytes
              (xaes256gcm_Open ref_lib kat_aead kat_sealed_mem nil_slice nil_slice (slice_at 0 52)
                 nil_slice) \<noteq> Ret (Inl errOpen)"
    by (rule conjunct2)
  have "opened_bytes
          (xaes256gcmManual_Open ref_lib kat_instance kat_sealed_mem nil_slice
             (reslice (slice_at 0 52) 0 24) (reslice (slice_at 0 52) 24 (len (slice_at 0 52)))
             nil_slice) = Ret (Inr kat_plaintext)"
    by (rule kat_open) (simp_all only: kat_sealed_loads kat_sealed_allocated)
  then have d: "opened_bytes
     (xaes256gcm_Open ref_lib kat_aead kat_sealed_mem nil_slice nil_slice (slice_at 0 52)
        nil_slice) = Ret (Inr kat_plaintext)"
    by (simp only: b)
  have e: "len nil_slice = 0" "len (slice_at 0 23) < NonceSize" "NonceSize \<le> len (slice_at 0 52)"
    by (simp_all add: NonceSize_def)
  from e a b c d show ?thesis
    by (intro conjI)
qed

text \<open>
  C8 as stated fails on the instance of the test vector: the 23 bytes of a ciphertext
  that is too short yield \<open>errOpen\<close>, and the sealed message with a changed tag yields
  the library's error, which is another one.
\<close>

theorem auto_open_too_short_counterexample:
  "opened_bytes
     (xaes256gcm_Open ref_lib kat_aead tampered_mem nil_slice nil_slice (slice_at 0 23) nil_slice)
     = Ret (Inl errOpen) \<and>
   opened_bytes
     (xaes256gcm_Open ref_lib kat_aead tampered_mem nil_slice nil_slice (slice_at 0 52) nil_slice)
     = Ret (Inl cipher_errOpen) \<and>
   errOpen \<noteq> cipher_errOpen"
proof -
  have "opened_bytes
          (xaes256gcmManual_Open ref_lib kat_instance tampered_mem nil_slice
             (reslice (slice_at 0 52) 0 24) (reslice (slice_at 0 52) 24 (len (slice_at 0 52)))
             nil_slice) = Ret (Inl cipher_errOpen)"
    by (rule kat_open_tampered) (simp_all only: kat_tampered_loads kat_tampered_allocated)
  then show ?thesis
    by (simp add: xaes256gcm_Open_def NonceSize_def)
qed

text \<open>
  C9. In manual-nonce \<open>Seal\<close> and \<open>Open\<close> with a 24-byte nonce the two ignored errors are
  nil: \<open>deriveKey\<close> returns exactly 32 bytes, which \<open>aes.NewCipher\<close> accepts, the cipher it
  returns has 16-byte blocks, which \<open>cipher.NewGCM\<close> accepts, and neither method runs
  into a nil value.
\<close>

theorem inner_constructors_never_fail:
  assumes "newWithManualNonces lib key = Ret (Inr x)" and "len nonce = NonceSize"
  shows "\<exists>k blk a.
           deriveKey x (load h (reslice nonce 0 12)) = Ret k \<and> length k = 32 \<and>
           aes_NewCipher lib k = Inr blk \<and> BlockSize blk = 16 \<and>
           cipher_NewGCM blk = Inr a \<and>
           xaes256gcmManual_Seal lib x h dst nonce plaintext ad \<noteq> Panic PanicNilDereference \<and>
           xaes256gcmManual_Open lib x h dst nonce ciphertext ad \<noteq> Panic PanicNilDereference"
proof -
  from assms(2) have n24: "len nonce = 24" by (simp add: NonceSize_def)
  from manual_key[OF assms(1) n24]
  obtain k where k: "deriveKey x (take 12 (load h nonce)) = Ret k" and lk: "length k = 32"
    by blast
  have "aes_NewCipher lib k = Inr (aes_Block lib k)"
    using lk by (simp add: aes_NewCipher_ok)
  moreover have "xaes256gcmManual_Seal lib x h dst nonce plaintext ad \<noteq> Panic PanicNilDereference"
    unfolding manual_Seal_24[OF assms(1) n24 k] by (auto dest!: gcm_Seal_panic)
  moreover have "xaes256gcmManual_Open lib x h dst nonce ciphertext ad \<noteq> Panic PanicNilDereference"
    unfolding manual_Open_24[OF assms(1) n24 k] by (auto dest!: gcm_Open_panic)
  ultimately show ?thesis
    using k lk cipher_NewGCM_aes[of lib k] by (auto simp: load_nonce_halves(1)[OF n24])
qed

theorem inner_constructors_never_fail_witness:
  "newWithManualNonces ref_lib kat_key = Ret (Inr kat_instance) \<and>
   len (slice_at 0 24) = NonceSize \<and>
   load kat_mem (reslice (slice_at 0 24) 0 12) = take 12 kat_nonce \<and>
   (\<exists>k blk a.
      deriveKey kat_instance (load kat_mem (reslice (slice_at 0 24) 0 12)) = Ret k \<and>
      length k = 32 \<and>
      aes_NewCipher ref_lib k = Inr blk \<and> BlockSize blk = 16 \<and>
      cipher_NewGCM blk = Inr a \<and>
      xaes256gcmManual_Seal ref_lib kat_instance kat_mem nil_slice (slice_at 0 24)
        (slice_at 24 12) nil_slice \<noteq> Panic PanicNilDereference \<and>
      xaes256gcmManual_Open ref_lib kat_instance kat_mem nil_slice (slice_at 0 24)
        (slice_at 24 12) nil_slice \<noteq> Panic PanicNilDereference)"
proof -
  have n: "len (slice_at 0 24) = NonceSize"
    by (simp add: NonceSize_def)
  have l: "load kat_mem (reslice (slice_at 0 24) 0 12) = take 12 kat_nonce"
    by (simp add: load_reslice kat_mem_loads)
  from kat_new n l
    inner_constructors_never_fail[OF kat_new n, where h = kat_mem and dst = nil_slice
      and plaintext = "slice_at 24 12" and ad = nil_slice and ciphertext = "slice_at 24 12"]
  show ?thesis
    by (intro conjI)
qed

text \<open>
  C10. For every destination buffer \<open>dst\<close>, whatever its capacity, the buffer that
  automatic-mode \<open>Seal\<close> returns starts with the \<open>len(dst)\<close> bytes that \<open>dst\<close> held when
  \<open>Seal\<close> was called. This covers the buffer that is too small, whose contents are
  copied into a new array, and the buffer with room, which is extended in place. And
  \<open>Seal\<close> does return one when the nonce is empty, the random source delivers, the
  plaintext is within GCM's limit, and plaintext and additional data do not overlap
  the bytes appended to \<open>dst\<close>.
\<close>

theorem auto_seal_keeps_dst:
  assumes "New lib key = Ret (Inr x)" and "allocated h dst"
  shows "(\<forall>h1 out. xaes256gcm_Seal lib rnd x h dst nonce plaintext ad = Ret (h1, out) \<longrightarrow>
            len dst \<le> len out \<and> take (len dst) (load h1 out) = load h dst) \<and>
         (len nonce = 0 \<and> rnd NonceSize \<noteq> None \<and> len plaintext \<le> gcm_max_plaintext \<and>
          allocated h plaintext \<and> allocated h ad \<and>
          apart dst (len plaintext + Overhead) plaintext \<and>
          apart dst (len plaintext + Overhead) ad \<longrightarrow>
            (\<exists>h1 out. xaes256gcm_Seal lib rnd x h dst nonce plaintext ad = Ret (h1, out)))"
proof (intro conjI impI allI)
  fix h1 out
  assume ret: "xaes256gcm_Seal lib rnd x h dst nonce plaintext ad = Ret (h1, out)"
  then have n0: "len nonce = 0"
    by (auto simp: xaes256gcm_Seal_def split: if_splits)
  have "rnd NonceSize \<noteq> None"
    using ret auto_Seal_no_rand[OF n0, of rnd lib x h dst plaintext ad] by auto
  then obtain r where r: "rnd NonceSize = Some r" by auto
  from auto_Seal_stage[where rnd = rnd and r = r and lib = lib and x = x and pt = plaintext and ad = ad,
      OF n0 assms(2) r]
  obtain h' dst' N nv where seal: "xaes256gcm_Seal lib rnd x h dst nonce plaintext ad
        = xaes256gcmManual_Seal lib (manual x) h' dst' N plaintext ad"
    and ld': "len dst' = len dst + 24" and ldd: "load h' dst' = load h dst @ nv"
    and a': "allocated h' dst'"
    by blast
  from ret seal manual_Seal_Ret[of lib "manual x" h' dst' N plaintext ad "(h1, out)"]
  obtain a n where "gcm_Seal lib a h' dst' n plaintext ad = Ret (h1, out)"
    by auto
  from gcm_Seal_prefix[OF this a']
  have lo: "len out = len dst' + (len plaintext + tagSize a)"
    and pre: "take (len dst') (load h1 out) = load h' dst'"
    by simp_all
  have "take (len dst) (load h1 out) = take (len dst) (take (len dst') (load h1 out))"
    by (simp add: ld' min_def)
  also have "\<dots> = load h dst"
    by (simp add: pre ldd)
  finally show "len dst \<le> len out" and "take (len dst) (load h1 out) = load h dst"
    using lo ld' by simp_all
next
  assume a: "len nonce = 0 \<and> rnd NonceSize \<noteq> None \<and> len plaintext \<le> gcm_max_plaintext \<and>
          allocated h plaintext \<and> allocated h ad \<and>
          apart dst (len plaintext + Overhead) plaintext \<and>
          apart dst (len plaintext + Overhead) ad"
  then obtain r where n0: "len nonce = 0" and r: "rnd NonceSize = Some r" by auto
  note inst = New_Inr[OF assms(1)]
  let ?n = "len plaintext + 16"
  from auto_Seal_stage[where rnd = rnd and r = r and lib = lib and x = x and pt = plaintext and ad = ad,
      OF n0 assms(2) r]
  obtain h' dst' N where seal: "xaes256gcm_Seal lib rnd x h dst nonce plaintext ad
        = xaes256gcmManual_Seal lib (manual x) h' dst' N plaintext ad"
    and lN: "len N = 24"
    and a': "allocated h' dst'" and bk: "brk h \<le> brk h'"
    and fr: "\<And>t. ptr t + len t \<le> brk h \<and> apart dst (len plaintext + Overhead) t \<Longrightarrow>
                load h' t = load h t \<and> \<not> AnyOverlap (appended dst' ?n) t"
    by blast
  from fr[of plaintext] fr[of ad] a
  have no: "\<not> AnyOverlap (appended dst' ?n) plaintext" "\<not> AnyOverlap (appended dst' ?n) ad"
    by (simp_all add: allocated_len)
  have ma: "may_append dst' ?n plaintext ad"
    using no InexactOverlap_imp by (auto simp: may_append_def)
  have al': "allocated h' plaintext" "allocated h' ad"
    using a bk by (auto intro: allocated_mono)
  from manual_key[OF inst lN, of h']
  obtain k where k: "deriveKey (manual x) (take 12 (load h' N)) = Ret k" by blast
  let ?g = "\<lparr>cipher = aes_Block lib k, nonceSize = 12, tagSize = 16\<rparr>"
  from gcm_Seal_returns[of "reslice N 12 (len N)" ?g plaintext h' dst' ad lib] a a' al' ma lN
  have "\<exists>r. gcm_Seal lib ?g h' dst' (reslice N 12 (len N)) plaintext ad = Ret r"
    by simp
  then show "\<exists>h1 out. xaes256gcm_Seal lib rnd x h dst nonce plaintext ad = Ret (h1, out)"
    by (simp add: seal manual_Seal_24[OF inst lN k])
qed

theorem auto_seal_keeps_dst_witness:
  "New ref_lib kat_key = Ret (Inr kat_aead) \<and>
   allocated dst_mem full_dst \<and> allocated dst_mem roomy_dst \<and>
   load dst_mem full_dst = [1, 2, 3] \<and> load dst_mem roomy_dst = [1, 2, 3] \<and>
   len nil_slice = 0 \<and> kat_rand NonceSize \<noteq> None \<and>
   len (slice_at 0 12) \<le> gcm_max_plaintext \<and>
   allocated dst_mem (slice_at 0 12) \<and> allocated dst_mem nil_slice \<and>
   apart full_dst (len (slice_at 0 12) + Overhead) (slice_at 0 12) \<and>
   apart full_dst (len (slice_at 0 12) + Overhead) nil_slice \<and>
   apart roomy_dst (len (slice_at 0 12) + Overhead) (slice_at 0 12) \<and>
   apart roomy_dst (len (slice_at 0 12) + Overhead) nil_slice \<and>
   slice_cap full_dst < len full_dst + len (slice_at 0 12) + Overhead \<and>
   (\<exists>h1 out.
      xaes256gcm_Seal ref_lib kat_rand kat_aead dst_mem full_dst nil_slice (slice_at 0 12)
        nil_slice = Ret (h1, out) \<and>
      take 3 (load h1 out) = [1, 2, 3]) \<and>
   len roomy_dst + len (slice_at 0 12) + Overhead \<le> slice_cap roomy_dst \<and>
   (\<exists>h1 out.
      xaes256gcm_Seal ref_lib kat_rand kat_aead dst_mem roomy_dst nil_slice (slice_at 0 12)
        nil_slice = Ret (h1, out) \<and>
      take 3 (load h1 out) = [1, 2, 3])"
proof -
  have al: "allocated dst_mem full_dst" "allocated dst_mem roomy_dst"
    "allocated dst_mem (slice_at 0 12)"
    by (simp_all add: allocated_def slice_cap_def dst_mem_def full_dst_def roomy_dst_def
        kat_lengths)
  have ld: "load dst_mem full_dst = [1, 2, 3]" "load dst_mem roomy_dst = [1, 2, 3]"
    by (simp_all add: dst_mem_def load_mem_of full_dst_def roomy_dst_def kat_lengths)
  have sz: "len (slice_at 0 12) \<le> gcm_max_plaintext"
    by (simp add: small_plaintext)
  have ap: "apart full_dst (len (slice_at 0 12) + Overhead) (slice_at 0 12)"
    "apart full_dst (len (slice_at 0 12) + Overhead) nil_slice"
    "apart roomy_dst (len (slice_at 0 12) + Overhead) (slice_at 0 12)"
    "apart roomy_dst (len (slice_at 0 12) + Overhead) nil_slice"
    by (simp_all add: apart_def not_AnyOverlap_iff appended_def full_dst_def roomy_dst_def
        Overhead_def slice_cap_def)
  have cp: "slice_cap full_dst < len full_dst + len (slice_at 0 12) + Overhead"
    "len roomy_dst + len (slice_at 0 12) + Overhead \<le> slice_cap roomy_dst"
    by (simp_all add: full_dst_def roomy_dst_def slice_cap_def Overhead_def)
  have r: "kat_rand NonceSize \<noteq> None" by simp
  note F = auto_seal_keeps_dst[OF kat_New al(1), where rnd = kat_rand and nonce = nil_slice
      and plaintext = "slice_at 0 12" and ad = nil_slice]
  note G = auto_seal_keeps_dst[OF kat_New al(2), where rnd = kat_rand and nonce = nil_slice
      and plaintext = "slice_at 0 12" and ad = nil_slice]
  have a: "\<exists>h1 out.
      xaes256gcm_Seal ref_lib kat_rand kat_aead dst_mem full_dst nil_slice (slice_at 0 12)
        nil_slice = Ret (h1, out) \<and>
      take 3 (load h1 out) = [1, 2, 3]"
    using F sz al(3) ap(1,2) ld(1) by (auto simp: full_dst_def)
  have b: "\<exists>h1 out.
      xaes256gcm_Seal ref_lib kat_rand kat_aead dst_mem roomy_dst nil_slice (slice_at 0 12)
        nil_slice = Ret (h1, out) \<and>
      take 3 (load h1 out) = [1, 2, 3]"
    using G sz al(3) ap(3,4) ld(2) by (auto simp: roomy_dst_def)
  from kat_New al ld r sz ap cp a b show ?thesis
    by simp
qed

end
